theory Spec2Isabelle
  imports Main "HOL-Library.Monad_Syntax"
begin

section \<open>The dashboard backend \<^verbatim>\<open>dh.py\<close>: aggregator, fan-out hub and poller\<close>

text \<open>
  The development follows \<^verbatim>\<open>src/dh.py\<close>: the class \<^verbatim>\<open>ConnectionManager\<close>
  (lines 23--44), the class \<^verbatim>\<open>DashboardData\<close> (lines 49--113), the query
  endpoints (lines 128--143) and the body of \<^verbatim>\<open>poll_detection_api\<close>
  (lines 162--193). Calls to the logger change no state and are left out.
\<close>

subsection \<open>Python values, exceptions and containers\<close>

text \<open>
  The exceptions the modelled code can raise. A procedure returns the exception it raised,
  if any, together with the state it left behind: what a Python method has mutated before
  it raises stays mutated. \<open>SendError\<close> stands for whatever exception
  \<^verbatim>\<open>send_text\<close> raises on a connection that cannot be written to.
\<close>

datatype py_error = TypeError | ValueError | KeyError | OverflowError | SendError

text \<open>
  \<^verbatim>\<open>list.remove(x)\<close>: removes the first occurrence of \<open>x\<close>, raises
  \<^verbatim>\<open>ValueError\<close> when there is none and leaves the list as it was.
\<close>

definition list_remove :: "'a \<Rightarrow> 'a list \<Rightarrow> py_error option \<times> 'a list" where
  "list_remove x xs = (if x \<in> set xs then (None, remove1 x xs) else (Some ValueError, xs))"

text \<open>
  \<^verbatim>\<open>deque(maxlen=n).append(x)\<close>: a deque that already holds \<open>n\<close> items drops
  the item at its left end, then the new item goes to the right end; with \<open>n = 0\<close>
  nothing is stored.
\<close>

definition deque_append :: "nat \<Rightarrow> 'a list \<Rightarrow> 'a \<Rightarrow> 'a list" where
  "deque_append maxlen d x =
     (if maxlen = 0 then d
      else if length d = maxlen then tl d @ [x]
      else d @ [x])"

text \<open>
  Slices with one bound. \<^verbatim>\<open>xs[i:]\<close> and \<^verbatim>\<open>xs[:j]\<close> count a negative bound
  from the end and clamp it into \<open>0 .. len(xs)\<close>.
\<close>

definition slice_bound :: "int \<Rightarrow> nat \<Rightarrow> nat" where
  "slice_bound i n = (if i < 0 then nat (max 0 (int n + i)) else min (nat i) n)"

definition slice_from :: "int \<Rightarrow> 'a list \<Rightarrow> 'a list" where
  "slice_from i xs = drop (slice_bound i (length xs)) xs"


subsection \<open>\<^verbatim>\<open>datetime\<close>\<close>

text \<open>
  A naive \<^verbatim>\<open>datetime\<close> is its seven fields, as in Python. \<^verbatim>\<open>datetime.now()\<close>
  returns a valid one.
\<close>

record datetime =
  year :: nat
  month :: nat
  day :: nat
  hour :: nat
  minute :: nat
  second :: nat
  microsecond :: nat

definition is_leap :: "nat \<Rightarrow> bool" where
  "is_leap y = (y mod 4 = 0 \<and> (y mod 100 \<noteq> 0 \<or> y mod 400 = 0))"

definition days_in_month :: "nat \<Rightarrow> nat \<Rightarrow> nat" where
  "days_in_month y m =
     (if m = 2 then (if is_leap y then 29 else 28)
      else if m = 4 \<or> m = 6 \<or> m = 9 \<or> m = 11 then 30
      else 31)"

definition valid_datetime :: "datetime \<Rightarrow> bool" where
  "valid_datetime t =
     (1 \<le> year t \<and> year t \<le> 9999 \<and> 1 \<le> month t \<and> month t \<le> 12 \<and>
      1 \<le> day t \<and> day t \<le> days_in_month (year t) (month t) \<and>
      hour t < 24 \<and> minute t < 60 \<and> second t < 60 \<and> microsecond t < 1000000)"

text \<open>Decimal digits: \<^verbatim>\<open>'%0wd' % n\<close> for a number of at most \<open>w\<close> digits.\<close>

definition digit_char :: "nat \<Rightarrow> char" where
  "digit_char n = char_of (48 + n)"

fun zero_pad :: "nat \<Rightarrow> nat \<Rightarrow> string" where
  "zero_pad 0 n = []"
| "zero_pad (Suc w) n = zero_pad w (n div 10) @ [digit_char (n mod 10)]"

definition digit_val :: "char \<Rightarrow> nat option" where
  "digit_val c =
     (if (48::nat) \<le> of_char c \<and> (of_char c :: nat) \<le> 57 then Some (of_char c - 48) else None)"

fun parse_digits :: "nat \<Rightarrow> string \<Rightarrow> nat option" where
  "parse_digits acc [] = Some acc"
| "parse_digits acc (c # cs) =
     (case digit_val c of None \<Rightarrow> None | Some v \<Rightarrow> parse_digits (10 * acc + v) cs)"

text \<open>
  \<^verbatim>\<open>datetime.isoformat()\<close>: \<^verbatim>\<open>YYYY-MM-DDTHH:MM:SS\<close>, followed by
  \<^verbatim>\<open>.ffffff\<close> when the microsecond is not zero.
\<close>

definition isoformat :: "datetime \<Rightarrow> string" where
  "isoformat t =
     zero_pad 4 (year t) @ ''-'' @ zero_pad 2 (month t) @ ''-'' @ zero_pad 2 (day t) @ ''T'' @
     zero_pad 2 (hour t) @ '':'' @ zero_pad 2 (minute t) @ '':'' @ zero_pad 2 (second t) @
     (if microsecond t = 0 then [] else ''.'' @ zero_pad 6 (microsecond t))"

text \<open>\<^verbatim>\<open>strftime('%H:00')\<close>, the key of the hourly counters.\<close>

definition hour_bucket :: "datetime \<Rightarrow> string" where
  "hour_bucket t = zero_pad 2 (hour t) @ '':00''"

text \<open>
  \<^verbatim>\<open>datetime.fromisoformat\<close> on the two spellings that \<open>isoformat\<close> writes; \<open>None\<close>
  is its \<^verbatim>\<open>ValueError\<close>. Python reads further spellings of a date and time (a date
  alone, a UTC offset, another separator); line 58 is the only writer of the strings that
  line 90 parses, so they do not occur and are rejected here.
\<close>

definition fromisoformat :: "string \<Rightarrow> datetime option" where
  "fromisoformat s =
     (if (length s = 19 \<or> length s = 26 \<and> s ! 19 = CHR ''.'') \<and>
         s ! 4 = CHR ''-'' \<and> s ! 7 = CHR ''-'' \<and> s ! 10 = CHR ''T'' \<and>
         s ! 13 = CHR '':'' \<and> s ! 16 = CHR '':''
      then do {
        y \<leftarrow> parse_digits 0 (take 4 s);
        m \<leftarrow> parse_digits 0 (take 2 (drop 5 s));
        d \<leftarrow> parse_digits 0 (take 2 (drop 8 s));
        hh \<leftarrow> parse_digits 0 (take 2 (drop 11 s));
        mm \<leftarrow> parse_digits 0 (take 2 (drop 14 s));
        ss \<leftarrow> parse_digits 0 (take 2 (drop 17 s));
        us \<leftarrow> parse_digits 0 (drop 20 s);
        let t = \<lparr>year = y, month = m, day = d, hour = hh, minute = mm, second = ss,
                 microsecond = us\<rparr>
        in if valid_datetime t then Some t else None
      }
      else None)"

text \<open>
  Comparison of two naive datetimes is the lexicographic comparison of their fields.
\<close>

fun lex_less :: "nat list \<Rightarrow> nat list \<Rightarrow> bool" where
  "lex_less (x # xs) (y # ys) = (x < y \<or> (x = y \<and> lex_less xs ys))"
| "lex_less _ _ = False"

definition dt_fields :: "datetime \<Rightarrow> nat list" where
  "dt_fields t = [year t, month t, day t, hour t, minute t, second t, microsecond t]"

definition dt_less :: "datetime \<Rightarrow> datetime \<Rightarrow> bool" where
  "dt_less a b = lex_less (dt_fields a) (dt_fields b)"

text \<open>
  \<^verbatim>\<open>t - timedelta(hours=24)\<close> is the same time on the day before, \<^verbatim>\<open>t -
  timedelta(hours=1)\<close> the hour before, borrowing from the day; \<open>None\<close> is the
  \<^verbatim>\<open>OverflowError\<close> of a result before year 1. \<open>back_minute\<close> is
  \<^verbatim>\<open>t - timedelta(minutes=1)\<close>; \<open>minutes_before k\<close> subtracts \<open>k\<close> minutes.
\<close>

definition back_day :: "datetime \<Rightarrow> datetime option" where
  "back_day t =
     (if 1 < day t then Some (t\<lparr>day := day t - 1\<rparr>)
      else if 1 < month t
        then Some (t\<lparr>month := month t - 1, day := days_in_month (year t) (month t - 1)\<rparr>)
      else if 1 < year t then Some (t\<lparr>year := year t - 1, month := 12, day := 31\<rparr>)
      else None)"

definition back_hour :: "datetime \<Rightarrow> datetime option" where
  "back_hour t =
     (if 0 < hour t then Some (t\<lparr>hour := hour t - 1\<rparr>) else back_day (t\<lparr>hour := 23\<rparr>))"

definition back_minute :: "datetime \<Rightarrow> datetime option" where
  "back_minute t =
     (if 0 < minute t then Some (t\<lparr>minute := minute t - 1\<rparr>)
      else back_hour (t\<lparr>minute := 59\<rparr>))"

fun minutes_before :: "nat \<Rightarrow> datetime \<Rightarrow> datetime option" where
  "minutes_before 0 t = Some t"
| "minutes_before (Suc k) t = (case minutes_before k t of None \<Rightarrow> None | Some u \<Rightarrow> back_minute u)"


subsection \<open>JSON values and dictionaries\<close>

text \<open>
  The values of an anomaly record's fields: \<^verbatim>\<open>None\<close>, integers, strings and lists of
  these. On them Python's \<^verbatim>\<open>==\<close> is equality of the terms, and all but the lists
  are hashable. Floats, booleans (which \<^verbatim>\<open>==\<close> identifies with numbers of the same
  value) and nested objects are not represented.
\<close>

datatype pyval = PNone | PInt int | PStr string | PList "pyval list"

fun hashable :: "pyval \<Rightarrow> bool" where
  "hashable (PList xs) = False"
| "hashable v = True"

text \<open>
  A \<^verbatim>\<open>dict\<close> is the list of its items in insertion order. \<^verbatim>\<open>d[k] = v\<close> replaces
  the value of a key that is present and appends a new item otherwise; \<^verbatim>\<open>d.get(k,
  default)\<close> reads; \<^verbatim>\<open>d1 == d2\<close> holds when both have the same keys with equal
  values, in whatever order.
\<close>

fun setitem :: "'k \<Rightarrow> 'v \<Rightarrow> ('k \<times> 'v) list \<Rightarrow> ('k \<times> 'v) list" where
  "setitem k v [] = [(k, v)]"
| "setitem k v (p # ps) = (if fst p = k then (k, v) # ps else p # setitem k v ps)"

definition dict_get :: "('k \<times> 'v) list \<Rightarrow> 'k \<Rightarrow> 'v \<Rightarrow> 'v" where
  "dict_get d k dflt = (case map_of d k of None \<Rightarrow> dflt | Some v \<Rightarrow> v)"

definition dict_eq :: "('k \<times> 'v) list \<Rightarrow> ('k \<times> 'v) list \<Rightarrow> bool" where
  "dict_eq a b = list_all (\<lambda>k. map_of a k = map_of b k) (map fst a @ map fst b)"

text \<open>
  A \<^verbatim>\<open>defaultdict\<close>: \<^verbatim>\<open>d[k]\<close> on a missing key stores the default first. Lines 63,
  64, 68 and 72 read \<^verbatim>\<open>d[k]\<close> and update what they read.
\<close>

definition dd_update :: "'k \<Rightarrow> 'v \<Rightarrow> ('v \<Rightarrow> 'v) \<Rightarrow> ('k \<times> 'v) list \<Rightarrow> ('k \<times> 'v) list" where
  "dd_update k dflt f d = setitem k (f (dict_get d k dflt)) d"

text \<open>
  \<^verbatim>\<open>sorted(xs, key=key, reverse=True)\<close>: descending by key; the sort is stable, and
  \<^verbatim>\<open>reverse=True\<close> keeps the items of equal key in their original order.
\<close>

definition sorted_reverse :: "('a \<Rightarrow> int) \<Rightarrow> 'a list \<Rightarrow> 'a list" where
  "sorted_reverse key xs = sort_key (\<lambda>x. - key x) xs"

subsection \<open>The state of the module\<close>

text \<open>
  The anomaly dictionaries live in a heap, since the poller, the history and the message
  under broadcast share them. The state holds the attributes of the two singletons
  \<^verbatim>\<open>manager\<close> and \<^verbatim>\<open>dashboard_data\<close>, the heap, and the environment: \<open>clock\<close>
  is the sequence of values that the calls of \<^verbatim>\<open>datetime.now()\<close> still to come will
  return, \<open>send_ok\<close> says which of the calls of \<^verbatim>\<open>send_text\<close> that
  \<^verbatim>\<open>broadcast\<close> will still make succeed, and \<open>sent\<close> lists what these calls have
  delivered, oldest first.

  The tasks are scheduled cooperatively: another task runs only while this one awaits, and
  the only await inside a turn of the poller is that of \<^verbatim>\<open>send_text\<close> at line 41.
  The other tasks are the websocket endpoints, which write to the module's state only by
  \<^verbatim>\<open>manager.connect\<close> (line 148) and \<^verbatim>\<open>manager.disconnect\<close> (line 159); the
  snapshots they take at line 152 change nothing, and the readings of the clock taken for
  them are not among those of \<open>clock\<close>. \<open>interleaved\<close> gives, for each await of
  \<^verbatim>\<open>send_text\<close> still to come, the calls that the endpoints make during it, in order.
\<close>

type_synonym websocket = nat

type_synonym addr = nat

type_synonym pydict = "(string \<times> pyval) list"

datatype hub_action = Connect websocket | Disconnect websocket

record message =
  msg_type :: string
  msg_data :: pydict

record ip_stat =
  count :: int
  last_seen :: "string option"

record traffic_sample =
  ts_timestamp :: string
  ts_total_requests :: int
  ts_anomaly_count :: int
  ts_normal_count :: int

record world =
  clock :: "nat \<Rightarrow> datetime"
  send_ok :: "nat \<Rightarrow> bool"
  interleaved :: "nat \<Rightarrow> hub_action list"
  sent :: "(websocket \<times> message) list"
  heap :: "addr \<Rightarrow> pydict"
  next_addr :: addr
  active_connections :: "websocket list"
  anomaly_history :: "addr list"
  traffic_stats :: "traffic_sample list"
  ip_stats :: "(pyval \<times> ip_stat) list"
  protocol_stats :: "(pyval \<times> int) list"
  hourly_stats :: "(string \<times> int) list"

definition history_maxlen :: nat where
  "history_maxlen = 1000"

definition traffic_maxlen :: nat where
  "traffic_maxlen = 100"

text \<open>
  The state after the module is loaded (lines 25 and 51--55), with a given clock and given
  outcomes of the sends, and with no endpoint running during an await.
\<close>

definition initial_world :: "(nat \<Rightarrow> datetime) \<Rightarrow> (nat \<Rightarrow> bool) \<Rightarrow> world" where
  "initial_world clk ok =
     \<lparr>clock = clk, send_ok = ok, interleaved = (\<lambda>n. []), sent = [], heap = (\<lambda>a. []), next_addr = 0,
      active_connections = [], anomaly_history = [], traffic_stats = [], ip_stats = [],
      protocol_stats = [], hourly_stats = []\<rparr>"

definition now :: "world \<Rightarrow> datetime \<times> world" where
  "now w = (clock w 0, w\<lparr>clock := (\<lambda>n. clock w (Suc n))\<rparr>)"

subsection \<open>\<^verbatim>\<open>ConnectionManager\<close>\<close>

text \<open>\<^verbatim>\<open>connect\<close>, lines 27--30, after the handshake.\<close>

definition connect :: "websocket \<Rightarrow> world \<Rightarrow> world" where
  "connect websocket w = w\<lparr>active_connections := active_connections w @ [websocket]\<rparr>"

text \<open>\<^verbatim>\<open>disconnect\<close>, lines 32--34.\<close>

definition disconnect :: "websocket \<Rightarrow> world \<Rightarrow> py_error option \<times> world" where
  "disconnect websocket w =
     (case list_remove websocket (active_connections w) of
        (e, conns) \<Rightarrow> (e, w\<lparr>active_connections := conns\<rparr>))"

text \<open>
  What an endpoint does to the live list during an await; the \<^verbatim>\<open>ValueError\<close> of its
  own \<^verbatim>\<open>disconnect\<close> ends that endpoint's task and is not seen by the poller.
\<close>

definition run_action :: "hub_action \<Rightarrow> world \<Rightarrow> world" where
  "run_action act w =
     (case act of Connect websocket \<Rightarrow> connect websocket w
      | Disconnect websocket \<Rightarrow> snd (disconnect websocket w))"

definition await_point :: "world \<Rightarrow> world" where
  "await_point w =
     fold run_action (interleaved w 0) (w\<lparr>interleaved := (\<lambda>n. interleaved w (Suc n))\<rparr>)"

text \<open>
  One \<^verbatim>\<open>await connection.send_text(message_str)\<close>: the endpoints scheduled during the
  await run, then the call delivers the text or raises.
\<close>

definition send_text :: "websocket \<Rightarrow> message \<Rightarrow> world \<Rightarrow> py_error option \<times> world" where
  "send_text connection message_str w =
     (let w' = (await_point w)\<lparr>send_ok := (\<lambda>n. send_ok w (Suc n))\<rparr>
      in if send_ok w 0 then (None, w'\<lparr>sent := sent w' @ [(connection, message_str)]\<rparr>)
         else (Some SendError, w'))"

text \<open>
  \<^verbatim>\<open>broadcast\<close>, lines 36--44. The loop runs over the copy made at line 39; the
  handler of line 42 removes the connection from the live list as it is after the await,
  and an exception of that removal leaves the loop. The text \<^verbatim>\<open>json.dumps(message)\<close>
  is represented by the message it encodes: the type tag and the items that the data
  dictionary has at line 38.
\<close>

fun broadcast_loop :: "message \<Rightarrow> websocket list \<Rightarrow> world \<Rightarrow> py_error option \<times> world" where
  "broadcast_loop message_str [] w = (None, w)"
| "broadcast_loop message_str (connection # rest) w =
     (case send_text connection message_str w of
        (None, w1) \<Rightarrow> broadcast_loop message_str rest w1
      | (Some e, w1) \<Rightarrow>
          (case list_remove connection (active_connections w1) of
             (None, conns) \<Rightarrow> broadcast_loop message_str rest (w1\<lparr>active_connections := conns\<rparr>)
           | (Some e', conns) \<Rightarrow> (Some e', w1)))"

definition broadcast :: "string \<Rightarrow> addr \<Rightarrow> world \<Rightarrow> py_error option \<times> world" where
  "broadcast type data w =
     (if active_connections w \<noteq> []
      then broadcast_loop \<lparr>msg_type = type, msg_data = heap w data\<rparr> (active_connections w) w
      else (None, w))"

subsection \<open>\<^verbatim>\<open>DashboardData\<close>\<close>

definition default_ip_stat :: ip_stat where
  "default_ip_stat = \<lparr>count = 0, last_seen = None\<rparr>"

text \<open>
  \<^verbatim>\<open>add_anomaly\<close>, lines 57--72. \<open>anomaly_data\<close> is the address of the caller's
  dictionary: line 58 writes into it and line 59 stores that same address. Lines 63 and 68
  raise \<^verbatim>\<open>TypeError\<close> on a key that is not hashable, after the lines before them have
  taken effect.
\<close>

definition add_anomaly :: "addr \<Rightarrow> world \<Rightarrow> py_error option \<times> world" where
  "add_anomaly anomaly_data w =
     (case now w of (t1, w1) \<Rightarrow>
      let w2 = w1\<lparr>heap := (heap w1)
                 (anomaly_data := setitem ''timestamp'' (PStr (isoformat t1)) (heap w1 anomaly_data))\<rparr>;
          w3 = w2\<lparr>anomaly_history := deque_append history_maxlen (anomaly_history w2) anomaly_data\<rparr>;
          src_ip = dict_get (heap w3 anomaly_data) ''src_ip'' (PStr ''Unknown'')
      in if \<not> hashable src_ip then (Some TypeError, w3)
      else
      let w4 = w3\<lparr>ip_stats :=
                 dd_update src_ip default_ip_stat (\<lambda>s. s\<lparr>count := count s + 1\<rparr>) (ip_stats w3)\<rparr>
      in case now w4 of (t2, w5) \<Rightarrow>
      let w6 = w5\<lparr>ip_stats :=
                 dd_update src_ip default_ip_stat (\<lambda>s. s\<lparr>last_seen := Some (isoformat t2)\<rparr>)
                   (ip_stats w5)\<rparr>;
          protocol = dict_get (heap w6 anomaly_data) ''protocol'' (PStr ''Unknown'')
      in if \<not> hashable protocol then (Some TypeError, w6)
      else
      let w7 = w6\<lparr>protocol_stats := dd_update protocol 0 (\<lambda>c. c + 1) (protocol_stats w6)\<rparr>
      in case now w7 of (t3, w8) \<Rightarrow>
      (None, w8\<lparr>hourly_stats := dd_update (hour_bucket t3) 0 (\<lambda>c. c + 1) (hourly_stats w8)\<rparr>))"

text \<open>\<^verbatim>\<open>add_traffic_data\<close>, lines 74--80.\<close>

definition add_traffic_data :: "int \<Rightarrow> int \<Rightarrow> world \<Rightarrow> py_error option \<times> world" where
  "add_traffic_data total_requests anomaly_count w =
     (case now w of (t, w1) \<Rightarrow>
      (None, w1\<lparr>traffic_stats := deque_append traffic_maxlen (traffic_stats w1)
         \<lparr>ts_timestamp = isoformat t, ts_total_requests = total_requests,
          ts_anomaly_count = anomaly_count,
          ts_normal_count = total_requests - anomaly_count\<rparr>\<rparr>))"

text \<open>
  \<^verbatim>\<open>get_dashboard_stats\<close>, lines 82--113. The condition of line 90 on one stored
  dictionary raises \<^verbatim>\<open>KeyError\<close> when the key is missing, \<^verbatim>\<open>TypeError\<close> when
  its value is not a string and \<^verbatim>\<open>ValueError\<close> when the string does not parse.
\<close>

record dashboard_snapshot =
  total_anomalies :: nat
  recent_anomalies_count :: nat
  top_attacking_ips :: "(pyval \<times> int) list"
  protocol_distribution :: "(pyval \<times> int) list"
  traffic_trend :: "traffic_sample list"
  recent_anomalies :: "addr list"
  hourly_distribution :: "(string \<times> int) list"

definition stamped_after :: "datetime \<Rightarrow> pydict \<Rightarrow> py_error + bool" where
  "stamped_after last_hour a =
     (case map_of a ''timestamp'' of
        None \<Rightarrow> Inl KeyError
      | Some (PStr s) \<Rightarrow>
          (case fromisoformat s of
             None \<Rightarrow> Inl ValueError
           | Some t \<Rightarrow> Inr (dt_less last_hour t))
      | Some v \<Rightarrow> Inl TypeError)"

fun recent_filter :: "datetime \<Rightarrow> (addr \<Rightarrow> pydict) \<Rightarrow> addr list \<Rightarrow> py_error + addr list" where
  "recent_filter last_hour h [] = Inr []"
| "recent_filter last_hour h (a # as) =
     (case stamped_after last_hour (h a) of
        Inl e \<Rightarrow> Inl e
      | Inr keep \<Rightarrow>
          (case recent_filter last_hour h as of
             Inl e \<Rightarrow> Inl e
           | Inr rest \<Rightarrow> Inr (if keep then a # rest else rest)))"

definition get_dashboard_stats :: "world \<Rightarrow> (py_error + dashboard_snapshot) \<times> world" where
  "get_dashboard_stats w =
     (case now w of (now_t, w1) \<Rightarrow>
      case back_hour now_t of
        None \<Rightarrow> (Inl OverflowError, w1)
      | Some last_hour \<Rightarrow>
      case back_day now_t of
        None \<Rightarrow> (Inl OverflowError, w1)
      | Some last_24h \<Rightarrow>
      case recent_filter last_hour (heap w1) (anomaly_history w1) of
        Inl e \<Rightarrow> (Inl e, w1)
      | Inr recent \<Rightarrow>
      let top_ips = take 10 (sorted_reverse snd
                      (map (\<lambda>(ip, data). (ip, count data)) (ip_stats w1)));
          protocol_dist = protocol_stats w1;
          trend = slice_from (- 24) (traffic_stats w1)
      in (Inr \<lparr>total_anomalies = length (anomaly_history w1),
               recent_anomalies_count = length recent,
               top_attacking_ips = top_ips,
               protocol_distribution = protocol_dist,
               traffic_trend = trend,
               recent_anomalies = slice_from (- 20) (anomaly_history w1),
               hourly_distribution = hourly_stats w1\<rparr>, w1))"

subsection \<open>The query endpoints\<close>

text \<open>
  \<^verbatim>\<open>get_recent_anomalies\<close>, lines 128--132: the pair of \<^verbatim>\<open>"anomalies"\<close> and
  \<^verbatim>\<open>"total"\<close>. \<open>limit\<close> is any integer.
\<close>

definition get_recent_anomalies :: "int \<Rightarrow> world \<Rightarrow> addr list \<times> nat" where
  "get_recent_anomalies limit w =
     (let recent = slice_from (- limit) (anomaly_history w)
      in (recent, length (anomaly_history w)))"


subsection \<open>The poller\<close>

text \<open>
  What \<^verbatim>\<open>requests.get\<close> and \<^verbatim>\<open>response.json()\<close> give at lines 169--172: an
  exception, or a status code with the list of objects under \<^verbatim>\<open>"recent"\<close> (empty when
  the key is missing). Parsing the body makes a fresh dictionary for every object.
\<close>

datatype response = RequestError | Response int "pydict list"

definition alloc :: "pydict \<Rightarrow> world \<Rightarrow> addr \<times> world" where
  "alloc d w = (next_addr w, w\<lparr>heap := (heap w)(next_addr w := d), next_addr := Suc (next_addr w)\<rparr>)"

fun alloc_all :: "pydict list \<Rightarrow> world \<Rightarrow> addr list \<times> world" where
  "alloc_all [] w = ([], w)"
| "alloc_all (d # ds) w =
     (case alloc d w of (a, w1) \<Rightarrow>
      case alloc_all ds w1 of (as, w2) \<Rightarrow> (a # as, w2))"

text \<open>
  The test of line 176, \<^verbatim>\<open>anomaly not in [dict(a) for a in
  dashboard_data.anomaly_history]\<close>, compares the candidate with a copy of every stored
  dictionary.
\<close>

definition in_history :: "addr \<Rightarrow> world \<Rightarrow> bool" where
  "in_history anomaly w =
     list_ex (\<lambda>a. dict_eq (heap w anomaly) (heap w a)) (anomaly_history w)"

text \<open>The loop of lines 175--183; an exception ends it.\<close>

fun process_anomalies :: "addr list \<Rightarrow> world \<Rightarrow> py_error option \<times> world" where
  "process_anomalies [] w = (None, w)"
| "process_anomalies (anomaly # rest) w =
     (if \<not> in_history anomaly w then
        (case add_anomaly anomaly w of
           (Some e, w1) \<Rightarrow> (Some e, w1)
         | (None, w1) \<Rightarrow>
             (case broadcast ''new_anomaly'' anomaly w1 of
                (Some e, w2) \<Rightarrow> (Some e, w2)
              | (None, w2) \<Rightarrow> process_anomalies rest w2))
      else process_anomalies rest w)"

text \<open>
  One turn of the loop of \<^verbatim>\<open>poll_detection_api\<close>, lines 167--191, without the sleep.
  \<open>candidates\<close> is the list \<^verbatim>\<open>recent_anomalies\<close> of line 172. The handler of line
  190 swallows every exception, with the state as the exception left it.
\<close>

definition poll_cycle :: "response \<Rightarrow> world \<Rightarrow> world" where
  "poll_cycle r w =
     (case r of
        RequestError \<Rightarrow> w
      | Response status_code recent \<Rightarrow>
          if status_code = 200 then
            (case alloc_all recent w of (candidates, w1) \<Rightarrow>
             case process_anomalies candidates w1 of
               (Some e, w2) \<Rightarrow> w2
             | (None, w2) \<Rightarrow>
                 let total_requests = int (length candidates) + 100;
                     anomaly_count = int (length (filter
                       (\<lambda>a. map_of (heap w2 a) ''result'' = Some (PInt (- 1))) candidates))
                 in snd (add_traffic_data total_requests anomaly_count w2))
          else w)"

subsection \<open>Drivers and example inputs\<close>

text \<open>Calling \<^verbatim>\<open>add_anomaly\<close> for each dictionary of a list, in order.\<close>

fun add_anomalies :: "addr list \<Rightarrow> world \<Rightarrow> world" where
  "add_anomalies [] w = w"
| "add_anomalies (a # as) w = add_anomalies as (snd (add_anomaly a w))"

text \<open>Calling \<^verbatim>\<open>add_traffic_data\<close> for each pair of counts of a list, in order.\<close>

fun add_traffic_samples :: "(int \<times> int) list \<Rightarrow> world \<Rightarrow> world" where
  "add_traffic_samples [] w = w"
| "add_traffic_samples (p # ps) w =
     add_traffic_samples ps (snd (add_traffic_data (fst p) (snd p) w))"

text \<open>A sample is consistent when its normal count is the difference of the other two.\<close>

definition sample_consistent :: "traffic_sample \<Rightarrow> bool" where
  "sample_consistent s = (ts_normal_count s = ts_total_requests s - ts_anomaly_count s)"

text \<open>
  An environment for the examples: the clock starts at 2024-03-01T00:30:00 and advances by
  one second with every reading; every send succeeds, or every send but the second.
\<close>

definition example_time :: datetime where
  "example_time =
     \<lparr>year = 2024, month = 3, day = 1, hour = 0, minute = 30, second = 0, microsecond = 0\<rparr>"

definition example_clock :: "nat \<Rightarrow> datetime" where
  "example_clock n = example_time\<lparr>second := n mod 60\<rparr>"

definition all_sends_ok :: "nat \<Rightarrow> bool" where
  "all_sends_ok n = True"

definition second_send_fails :: "nat \<Rightarrow> bool" where
  "second_send_fails n = (n \<noteq> 1)"

definition example_world :: world where
  "example_world = initial_world example_clock all_sends_ok"

text \<open>
  Records as the detection source may send them: a complete one, one without the numeric
  fields \<^verbatim>\<open>score\<close> and \<^verbatim>\<open>result\<close>, one without \<^verbatim>\<open>src_ip\<close> and
  \<^verbatim>\<open>protocol\<close>, and one whose \<^verbatim>\<open>src_ip\<close> is a JSON array.
\<close>

definition example_record :: pydict where
  "example_record =
     [(''src_ip'', PStr ''1.2.3.4''), (''dst_ip'', PStr ''5.6.7.8''),
      (''protocol'', PStr ''TCP''), (''result'', PInt (- 1))]"

definition record_without_numbers :: pydict where
  "record_without_numbers = [(''src_ip'', PStr ''1.2.3.4''), (''protocol'', PStr ''TCP'')]"

definition record_without_strings :: pydict where
  "record_without_strings = [(''result'', PInt (- 1))]"

definition record_list_ip :: pydict where
  "record_list_ip = [(''src_ip'', PList [PStr ''1.2.3.4'']), (''protocol'', PStr ''TCP'')]"

text \<open>
  A clock for the recency filter: the first anomaly is stamped at 23:29 on 2024-02-29,
  the second at 23:31, and every later reading is 00:30 on 2024-03-01. The state is that
  of the module after one turn of the poller on two records under this clock.
\<close>

definition t_61_before :: datetime where
  "t_61_before =
     \<lparr>year = 2024, month = 2, day = 29, hour = 23, minute = 29, second = 0, microsecond = 0\<rparr>"

definition t_59_before :: datetime where
  "t_59_before =
     \<lparr>year = 2024, month = 2, day = 29, hour = 23, minute = 31, second = 0, microsecond = 0\<rparr>"

definition recency_clock :: "nat \<Rightarrow> datetime" where
  "recency_clock n = (if n < 3 then t_61_before else if n < 6 then t_59_before else example_time)"

definition recency_world :: world where
  "recency_world =
     poll_cycle (Response 200 [example_record, record_without_numbers])
       (initial_world recency_clock all_sends_ok)"





text \<open>Three connected observers, the second of which cannot be written to.\<close>

definition three_observers :: world where
  "three_observers =
     connect 3 (connect 2 (connect 1 (initial_world example_clock second_send_fails)))"

text \<open>
  The same three observers when the endpoint of the second one notices the broken
  connection first: it calls \<^verbatim>\<open>disconnect\<close> while the first send of the next broadcast
  is awaited.
\<close>

definition disconnect_2_during_first_send :: "nat \<Rightarrow> hub_action list" where
  "disconnect_2_during_first_send n = (if n = 0 then [Disconnect 2] else [])"

definition racing_observers :: world where
  "racing_observers = three_observers\<lparr>interleaved := disconnect_2_during_first_send\<rparr>"

section \<open>Properties\<close>

subsection \<open>Containers\<close>

lemma length_deque_append:
  "length d \<le> n \<Longrightarrow> length (deque_append n d x) \<le> n"
  by (cases d) (auto simp: deque_append_def)

lemma deque_append_not_full:
  "length d < n \<Longrightarrow> deque_append n d x = d @ [x]"
  by (simp add: deque_append_def)

lemma deque_append_full:
  "0 < n \<Longrightarrow> length d = n \<Longrightarrow> deque_append n d x = tl d @ [x]"
  by (simp add: deque_append_def)

lemma set_deque_append: "set (deque_append n d x) \<subseteq> insert x (set d)"
  by (cases d) (auto simp: deque_append_def)

lemma last_deque_append: "0 < n \<Longrightarrow> last (deque_append n d x) = x"
  by (simp add: deque_append_def)

lemma deque_append_drop:
  assumes "0 < n" "length d \<le> n"
  shows "deque_append n d x = drop (length d + 1 - n) (d @ [x])"
proof (cases "length d = n")
  case True
  then have "drop (length d + 1 - n) (d @ [x]) = drop 1 d @ [x]"
    using assms by simp
  then show ?thesis
    using True assms by (simp add: deque_append_def drop_Suc)
next
  case False
  then show ?thesis
    using assms by (simp add: deque_append_def)
qed

lemma map_of_setitem: "map_of (setitem k v d) = (map_of d)(k \<mapsto> v)"
  by (induction d) (auto simp: fun_eq_iff)

lemma dict_get_setitem:
  "dict_get (setitem k v d) k' dflt = (if k' = k then v else dict_get d k' dflt)"
  by (simp add: dict_get_def map_of_setitem)

subsection \<open>Traffic samples\<close>

lemma add_traffic_data_stats:
  "traffic_stats (snd (add_traffic_data total_requests anomaly_count w)) =
     deque_append traffic_maxlen (traffic_stats w)
       \<lparr>ts_timestamp = isoformat (clock w 0), ts_total_requests = total_requests,
        ts_anomaly_count = anomaly_count,
        ts_normal_count = total_requests - anomaly_count\<rparr>"
  by (simp add: add_traffic_data_def now_def)

lemma add_traffic_data_returns:
  "fst (add_traffic_data total_requests anomaly_count w) = None"
  by (simp add: add_traffic_data_def now_def)

lemma initial_world_fields:
  "anomaly_history (initial_world clk ok) = []"
  "traffic_stats (initial_world clk ok) = []"
  "active_connections (initial_world clk ok) = []"
  "ip_stats (initial_world clk ok) = []"
  "protocol_stats (initial_world clk ok) = []"
  "hourly_stats (initial_world clk ok) = []"
  "sent (initial_world clk ok) = []"
  "next_addr (initial_world clk ok) = 0"
  "clock (initial_world clk ok) = clk"
  "send_ok (initial_world clk ok) = ok"
  "interleaved (initial_world clk ok) n = []"
  "heap (initial_world clk ok) a = []"
  by (simp_all add: initial_world_def)

text \<open>
  C2, as the code has it. \<^verbatim>\<open>add_traffic_data\<close> checks nothing and never raises:
  whatever the two counts are, it returns and the sample it appends has
  \<open>normal_count = total_requests - anomaly_count\<close>, which is non-negative exactly when
  \<open>anomaly_count \<le> total_requests\<close>; it keeps every stored sample consistent in that
  sense.
\<close>

theorem add_traffic_data_no_check:
  "fst (add_traffic_data total_requests anomaly_count w) = None \<and>
   last (traffic_stats (snd (add_traffic_data total_requests anomaly_count w))) =
     \<lparr>ts_timestamp = isoformat (clock w 0), ts_total_requests = total_requests,
      ts_anomaly_count = anomaly_count,
      ts_normal_count = total_requests - anomaly_count\<rparr> \<and>
   (0 \<le> ts_normal_count
          (last (traffic_stats (snd (add_traffic_data total_requests anomaly_count w))))
      \<longleftrightarrow> anomaly_count \<le> total_requests) \<and>
   (list_all sample_consistent (traffic_stats w) \<longrightarrow>
    list_all sample_consistent
      (traffic_stats (snd (add_traffic_data total_requests anomaly_count w))))"
proof -
  let ?s = "\<lparr>ts_timestamp = isoformat (clock w 0), ts_total_requests = total_requests,
             ts_anomaly_count = anomaly_count,
             ts_normal_count = total_requests - anomaly_count\<rparr>"
  have l: "last (deque_append traffic_maxlen (traffic_stats w) ?s) = ?s"
    by (rule last_deque_append) (simp add: traffic_maxlen_def)
  have c: "sample_consistent ?s"
    by (simp add: sample_consistent_def)
  have k: "list_all sample_consistent (deque_append traffic_maxlen (traffic_stats w) ?s)"
    if "list_all sample_consistent (traffic_stats w)"
    using that c set_deque_append [of traffic_maxlen "traffic_stats w" ?s]
    by (auto simp: list_all_iff)
  show ?thesis
    using l k by (simp add: add_traffic_data_stats add_traffic_data_returns)
qed

theorem add_traffic_data_no_check_witness:
  "list_all sample_consistent (traffic_stats example_world) \<and>
   fst (add_traffic_data 1 2 example_world) = None \<and>
   ts_normal_count (last (traffic_stats (snd (add_traffic_data 1 2 example_world)))) = - 1 \<and>
   list_all sample_consistent (traffic_stats (snd (add_traffic_data 1 2 example_world)))"
  using add_traffic_data_no_check [of 1 2 example_world]
  by (simp add: example_world_def initial_world_fields)

text \<open>
  C2 as the specification states it fails: with one request and two anomalies the call
  returns normally, and the sample it stored has the normal count \<open>-1\<close>.
\<close>

theorem add_traffic_data_negative_counterexample:
  "fst (add_traffic_data 1 2 example_world) = None \<and>
   map ts_normal_count (traffic_stats (snd (add_traffic_data 1 2 example_world))) = [- 1]"
  by (simp add: add_traffic_data_stats add_traffic_data_returns example_world_def
      initial_world_fields deque_append_def traffic_maxlen_def)

subsection \<open>Removing an observer\<close>

lemma active_connections_connect:
  "active_connections (connect websocket w) = active_connections w @ [websocket]"
  by (simp add: connect_def)

text \<open>
  C3, as the code has it. \<^verbatim>\<open>disconnect\<close> removes the first occurrence of an
  observer that is in the live list and returns; on an observer that is not in the list,
  because it was removed before or never connected, it raises \<^verbatim>\<open>ValueError\<close> and
  leaves the state as it was.
\<close>

theorem disconnect_present_or_raises:
  "(websocket \<in> set (active_connections w) \<longrightarrow>
      disconnect websocket w =
        (None, w\<lparr>active_connections := remove1 websocket (active_connections w)\<rparr>)) \<and>
   (websocket \<notin> set (active_connections w) \<longrightarrow>
      disconnect websocket w = (Some ValueError, w))"
  by (simp add: disconnect_def list_remove_def)

theorem disconnect_present_or_raises_witness:
  "7 \<in> set (active_connections (connect 7 example_world)) \<and>
   fst (disconnect 7 (connect 7 example_world)) = None \<and>
   active_connections (snd (disconnect 7 (connect 7 example_world))) = [] \<and>
   7 \<notin> set (active_connections (snd (disconnect 7 (connect 7 example_world)))) \<and>
   disconnect 7 (snd (disconnect 7 (connect 7 example_world))) =
     (Some ValueError, snd (disconnect 7 (connect 7 example_world)))"
  using disconnect_present_or_raises [of 7 "connect 7 example_world"]
    disconnect_present_or_raises [of 7 "snd (disconnect 7 (connect 7 example_world))"]
  by (simp add: active_connections_connect example_world_def initial_world_fields)

text \<open>
  C3 as the specification states it fails: the second \<^verbatim>\<open>disconnect\<close> of the same
  observer raises \<^verbatim>\<open>ValueError\<close>.
\<close>

theorem disconnect_twice_counterexample:
  "fst (disconnect 7 (snd (disconnect 7 (connect 7 example_world)))) = Some ValueError"
  by (simp add: disconnect_def list_remove_def active_connections_connect example_world_def
      initial_world_fields)

subsection \<open>The bounded histories\<close>

lemma add_anomaly_history:
  "anomaly_history (snd (add_anomaly a w)) = deque_append history_maxlen (anomaly_history w) a"
  by (simp add: add_anomaly_def now_def Let_def)

lemma foldl_deque_append:
  assumes "0 < n"
  shows "length d \<le> n \<Longrightarrow>
         foldl (deque_append n) d xs = drop (length d + length xs - n) (d @ xs)"
proof (induction xs arbitrary: d)
  case Nil
  then show ?case by simp
next
  case (Cons x xs)
  define k where "k = length d + 1 - n"
  define d' where "d' = deque_append n d x"
  have d': "d' = drop k (d @ [x])"
    unfolding d'_def k_def by (rule deque_append_drop [OF assms Cons.prems])
  have le: "length d' \<le> n"
    unfolding d'_def by (rule length_deque_append [OF Cons.prems])
  have len: "length d' = length d + 1 - k"
    by (simp add: d')
  have "k \<le> length (d @ [x])"
    by (simp add: k_def)
  then have "drop k (d @ [x]) @ xs = drop k ((d @ [x]) @ xs)"
    by (simp only: drop_append) simp
  then have app: "d' @ xs = drop k (d @ x # xs)"
    by (simp add: d')
  have "foldl (deque_append n) d (x # xs) = foldl (deque_append n) d' xs"
    by (simp add: d'_def)
  also have "\<dots> = drop (length d' + length xs - n) (d' @ xs)"
    by (rule Cons.IH [OF le])
  also have "\<dots> = drop (length d' + length xs - n + k) (d @ x # xs)"
    by (simp only: app drop_drop)
  also have "length d' + length xs - n + k = length d + length (x # xs) - n"
    using Cons.prems assms by (simp add: len k_def)
  finally show ?case .
qed

lemma add_anomalies_foldl:
  "anomaly_history (add_anomalies as w) =
     foldl (deque_append history_maxlen) (anomaly_history w) as"
  by (induction as arbitrary: w) (simp_all add: add_anomaly_history)

lemma add_anomalies_history:
  "length (anomaly_history w) \<le> history_maxlen \<Longrightarrow>
   anomaly_history (add_anomalies as w) =
     drop (length (anomaly_history w) + length as - history_maxlen) (anomaly_history w @ as)"
  by (simp add: add_anomalies_foldl foldl_deque_append history_maxlen_def)


subsection \<open>What a broadcast leaves alone\<close>

lemma run_action_frame:
  "anomaly_history (run_action act w) = anomaly_history w"
  "traffic_stats (run_action act w) = traffic_stats w"
  "heap (run_action act w) = heap w"
  "next_addr (run_action act w) = next_addr w"
  "ip_stats (run_action act w) = ip_stats w"
  "protocol_stats (run_action act w) = protocol_stats w"
  "hourly_stats (run_action act w) = hourly_stats w"
  "clock (run_action act w) = clock w"
  "sent (run_action act w) = sent w"
  "send_ok (run_action act w) = send_ok w"
  "interleaved (run_action act w) = interleaved w"
  by (cases act; simp add: run_action_def connect_def disconnect_def list_remove_def)+

lemma fold_run_action_frame:
  "anomaly_history (fold run_action acts w) = anomaly_history w \<and>
   traffic_stats (fold run_action acts w) = traffic_stats w \<and>
   heap (fold run_action acts w) = heap w \<and>
   next_addr (fold run_action acts w) = next_addr w \<and>
   ip_stats (fold run_action acts w) = ip_stats w \<and>
   protocol_stats (fold run_action acts w) = protocol_stats w \<and>
   hourly_stats (fold run_action acts w) = hourly_stats w \<and>
   clock (fold run_action acts w) = clock w \<and>
   sent (fold run_action acts w) = sent w \<and>
   send_ok (fold run_action acts w) = send_ok w \<and>
   interleaved (fold run_action acts w) = interleaved w"
  by (induction acts arbitrary: w) (simp_all add: run_action_frame)

lemma await_point_frame:
  "anomaly_history (await_point w) = anomaly_history w"
  "traffic_stats (await_point w) = traffic_stats w"
  "heap (await_point w) = heap w"
  "next_addr (await_point w) = next_addr w"
  "ip_stats (await_point w) = ip_stats w"
  "protocol_stats (await_point w) = protocol_stats w"
  "hourly_stats (await_point w) = hourly_stats w"
  "clock (await_point w) = clock w"
  "sent (await_point w) = sent w"
  "send_ok (await_point w) = send_ok w"
  "interleaved (await_point w) = (\<lambda>n. interleaved w (Suc n))"
  by (simp_all add: await_point_def fold_run_action_frame)

lemma await_point_quiet:
  "interleaved w 0 = [] \<Longrightarrow> active_connections (await_point w) = active_connections w"
  by (simp add: await_point_def)

lemma await_point_idle:
  assumes "\<forall>n. interleaved w n = []"
  shows "await_point w = w"
proof -
  have "interleaved w = (\<lambda>n. [])"
    using assms by (intro ext) simp
  then have "w\<lparr>interleaved := (\<lambda>n. interleaved w (Suc n))\<rparr> = w"
    by simp
  then show ?thesis
    using assms by (simp add: await_point_def)
qed

lemma send_text_ok:
  "send_ok w 0 \<Longrightarrow>
   send_text c m w =
     (None, (await_point w)\<lparr>send_ok := (\<lambda>n. send_ok w (Suc n)), sent := sent w @ [(c, m)]\<rparr>)"
  by (simp add: send_text_def Let_def await_point_frame)

lemma send_text_fail:
  "\<not> send_ok w 0 \<Longrightarrow>
   send_text c m w = (Some SendError, (await_point w)\<lparr>send_ok := (\<lambda>n. send_ok w (Suc n))\<rparr>)"
  by (simp add: send_text_def Let_def)

lemma broadcast_loop_frame:
  "anomaly_history (snd (broadcast_loop m cs w)) = anomaly_history w \<and>
   traffic_stats (snd (broadcast_loop m cs w)) = traffic_stats w \<and>
   heap (snd (broadcast_loop m cs w)) = heap w \<and>
   next_addr (snd (broadcast_loop m cs w)) = next_addr w \<and>
   ip_stats (snd (broadcast_loop m cs w)) = ip_stats w \<and>
   protocol_stats (snd (broadcast_loop m cs w)) = protocol_stats w \<and>
   hourly_stats (snd (broadcast_loop m cs w)) = hourly_stats w \<and>
   clock (snd (broadcast_loop m cs w)) = clock w"
proof (induction cs arbitrary: w)
  case Nil
  show ?case by simp
next
  case (Cons c cs)
  show ?case
  proof (cases "send_ok w 0")
    case True
    define w1 where
      "w1 = (await_point w)\<lparr>send_ok := (\<lambda>n. send_ok w (Suc n)), sent := sent w @ [(c, m)]\<rparr>"
    have step: "broadcast_loop m (c # cs) w = broadcast_loop m cs w1"
      using True by (simp add: send_text_ok w1_def)
    show ?thesis
      unfolding step using Cons [of w1] by (simp add: w1_def await_point_frame)
  next
    case False
    define w0 where "w0 = (await_point w)\<lparr>send_ok := (\<lambda>n. send_ok w (Suc n))\<rparr>"
    show ?thesis
    proof (cases "c \<in> set (active_connections w0)")
      case True
      define w1 where "w1 = w0\<lparr>active_connections := remove1 c (active_connections w0)\<rparr>"
      have step: "broadcast_loop m (c # cs) w = broadcast_loop m cs w1"
        using False True by (simp add: send_text_fail w0_def w1_def list_remove_def)
      show ?thesis
        unfolding step using Cons [of w1] by (simp add: w1_def w0_def await_point_frame)
    next
      case absent: False
      have step: "broadcast_loop m (c # cs) w = (Some ValueError, w0)"
        using False absent by (simp add: send_text_fail w0_def list_remove_def)
      show ?thesis
        unfolding step by (simp add: w0_def await_point_frame)
    qed
  qed
qed

lemma broadcast_frame:
  "anomaly_history (snd (broadcast ty d w)) = anomaly_history w"
  "traffic_stats (snd (broadcast ty d w)) = traffic_stats w"
  "heap (snd (broadcast ty d w)) = heap w"
  "next_addr (snd (broadcast ty d w)) = next_addr w"
  "ip_stats (snd (broadcast ty d w)) = ip_stats w"
  "protocol_stats (snd (broadcast ty d w)) = protocol_stats w"
  "hourly_stats (snd (broadcast ty d w)) = hourly_stats w"
  "clock (snd (broadcast ty d w)) = clock w"
  by (simp_all add: broadcast_def broadcast_loop_frame)

lemma add_anomaly_traffic_stats:
  "traffic_stats (snd (add_anomaly a w)) = traffic_stats w"
  by (simp add: add_anomaly_def now_def Let_def)

lemma process_anomalies_bounds:
  "length (anomaly_history w) \<le> history_maxlen \<Longrightarrow>
   length (anomaly_history (snd (process_anomalies as w))) \<le> history_maxlen \<and>
   traffic_stats (snd (process_anomalies as w)) = traffic_stats w"
proof (induction as arbitrary: w)
  case Nil
  then show ?case by simp
next
  case (Cons a as)
  let ?w1 = "snd (add_anomaly a w)"
  let ?w2 = "snd (broadcast ''new_anomaly'' a ?w1)"
  have le1: "length (anomaly_history ?w1) \<le> history_maxlen"
    using Cons.prems by (simp add: add_anomaly_history length_deque_append)
  then have le2: "length (anomaly_history ?w2) \<le> history_maxlen"
    by (simp add: broadcast_frame)
  have tr: "traffic_stats ?w2 = traffic_stats w"
    by (simp add: broadcast_frame add_anomaly_traffic_stats)
  show ?case
  proof (cases "in_history a w")
    case True
    then show ?thesis using Cons.IH [OF Cons.prems] by simp
  next
    case False
    obtain e1 v1 where a1: "add_anomaly a w = (e1, v1)" by (cases "add_anomaly a w")
    obtain e2 v2 where a2: "broadcast ''new_anomaly'' a v1 = (e2, v2)"
      by (cases "broadcast ''new_anomaly'' a v1")
    have v1: "v1 = ?w1" using a1 by simp
    have v2: "v2 = ?w2" using a2 v1 by simp
    show ?thesis
      using False a1 a2 le1 le2 tr Cons.IH [OF le2] add_anomaly_traffic_stats [of a w]
      by (cases e1; cases e2) (simp_all add: v1 [symmetric] v2 [symmetric])
  qed
qed

lemma alloc_all_frame:
  "anomaly_history (snd (alloc_all ds w)) = anomaly_history w \<and>
   traffic_stats (snd (alloc_all ds w)) = traffic_stats w"
proof (induction ds arbitrary: w)
  case Nil
  show ?case by simp
next
  case (Cons d ds)
  have "snd (alloc_all (d # ds) w) = snd (alloc_all ds (snd (alloc d w)))"
    by (simp split: prod.splits)
  then show ?case
    using Cons [of "snd (alloc d w)"] by (simp add: alloc_def)
qed

lemma poll_cycle_bounds:
  assumes "length (anomaly_history w) \<le> history_maxlen"
    and "length (traffic_stats w) \<le> traffic_maxlen"
  shows "length (anomaly_history (poll_cycle r w)) \<le> history_maxlen \<and>
         length (traffic_stats (poll_cycle r w)) \<le> traffic_maxlen"
proof (cases r)
  case RequestError
  then show ?thesis using assms by (simp add: poll_cycle_def)
next
  case (Response status ds)
  obtain as w1 where al: "alloc_all ds w = (as, w1)" by (cases "alloc_all ds w")
  obtain e w2 where pr: "process_anomalies as w1 = (e, w2)"
    by (cases "process_anomalies as w1")
  have w1: "length (anomaly_history w1) \<le> history_maxlen" "traffic_stats w1 = traffic_stats w"
    using alloc_all_frame [of ds w] assms al by simp_all
  have w2: "length (anomaly_history w2) \<le> history_maxlen" "traffic_stats w2 = traffic_stats w"
    using process_anomalies_bounds [OF w1(1), of as] pr w1 by simp_all
  have tr: "length (traffic_stats (snd (add_traffic_data x y w2))) \<le> traffic_maxlen" for x y
    using assms w2 by (simp add: add_traffic_data_stats length_deque_append)
  have hi: "anomaly_history (snd (add_traffic_data x y w2)) = anomaly_history w2" for x y
    by (simp add: add_traffic_data_def now_def)
  show ?thesis
    using Response al pr w2 assms tr hi
    by (cases e) (simp_all add: poll_cycle_def Let_def)
qed


lemma length_deque_append_eq:
  "0 < n \<Longrightarrow> length d \<le> n \<Longrightarrow> length (deque_append n d x) = min n (Suc (length d))"
  by (cases d) (auto simp: deque_append_def)

lemma length_add_traffic_samples:
  "length (traffic_stats w) \<le> traffic_maxlen \<Longrightarrow>
   length (traffic_stats (add_traffic_samples ps w)) =
     min traffic_maxlen (length (traffic_stats w) + length ps)"
proof (induction ps arbitrary: w)
  case Nil
  then show ?case by simp
next
  case (Cons p ps)
  let ?w = "snd (add_traffic_data (fst p) (snd p) w)"
  have pos: "0 < traffic_maxlen" by (simp add: traffic_maxlen_def)
  have len: "length (traffic_stats ?w) = min traffic_maxlen (Suc (length (traffic_stats w)))"
    using length_deque_append_eq [OF pos Cons.prems] by (simp add: add_traffic_data_stats)
  then have "length (traffic_stats ?w) \<le> traffic_maxlen" by simp
  from Cons.IH [OF this] len show ?case by simp
qed

text \<open>
  C5. Both histories stay within their bounds under \<^verbatim>\<open>add_anomaly\<close>,
  \<^verbatim>\<open>add_traffic_data\<close> and a whole turn of the poller; a full history loses exactly
  its oldest entry on an insertion; and 1500 insertions into the empty history leave the
  last 1000 inserted, in insertion order.
\<close>

theorem bounded_fifo_histories:
  "(length (anomaly_history w) \<le> 1000 \<and> length (traffic_stats w) \<le> 100 \<longrightarrow>
      length (anomaly_history (snd (add_anomaly a w))) \<le> 1000 \<and>
      length (traffic_stats (snd (add_traffic_data total_requests anomaly_count w))) \<le> 100 \<and>
      length (anomaly_history (poll_cycle r w)) \<le> 1000 \<and>
      length (traffic_stats (poll_cycle r w)) \<le> 100) \<and>
   (length (anomaly_history w) = 1000 \<longrightarrow>
      anomaly_history (snd (add_anomaly a w)) = tl (anomaly_history w) @ [a]) \<and>
   (length (traffic_stats w) = 100 \<longrightarrow>
      traffic_stats (snd (add_traffic_data total_requests anomaly_count w)) =
        tl (traffic_stats w) @
        [\<lparr>ts_timestamp = isoformat (clock w 0), ts_total_requests = total_requests,
          ts_anomaly_count = anomaly_count,
          ts_normal_count = total_requests - anomaly_count\<rparr>]) \<and>
   (anomaly_history w = [] \<and> length as = 1500 \<longrightarrow>
      anomaly_history (add_anomalies as w) = drop 500 as \<and>
      length (anomaly_history (add_anomalies as w)) = 1000)"
proof -
  have bounds: "length (anomaly_history (snd (add_anomaly a w))) \<le> 1000 \<and>
      length (traffic_stats (snd (add_traffic_data total_requests anomaly_count w))) \<le> 100 \<and>
      length (anomaly_history (poll_cycle r w)) \<le> 1000 \<and>
      length (traffic_stats (poll_cycle r w)) \<le> 100"
    if "length (anomaly_history w) \<le> 1000" "length (traffic_stats w) \<le> 100"
    using that poll_cycle_bounds [of w r]
    by (simp add: add_anomaly_history add_traffic_data_stats length_deque_append
        history_maxlen_def traffic_maxlen_def)
  have full_h: "anomaly_history (snd (add_anomaly a w)) = tl (anomaly_history w) @ [a]"
    if "length (anomaly_history w) = 1000"
    using that by (simp add: add_anomaly_history deque_append_full history_maxlen_def)
  have full_t: "traffic_stats (snd (add_traffic_data total_requests anomaly_count w)) =
        tl (traffic_stats w) @
        [\<lparr>ts_timestamp = isoformat (clock w 0), ts_total_requests = total_requests,
          ts_anomaly_count = anomaly_count,
          ts_normal_count = total_requests - anomaly_count\<rparr>]"
    if "length (traffic_stats w) = 100"
    using that by (simp add: add_traffic_data_stats deque_append_full traffic_maxlen_def)
  have many: "anomaly_history (add_anomalies as w) = drop 500 as \<and>
      length (anomaly_history (add_anomalies as w)) = 1000"
    if "anomaly_history w = []" "length as = 1500"
    using that add_anomalies_history [of w as] by (simp add: history_maxlen_def)
  show ?thesis
    using bounds full_h full_t many by blast
qed

theorem bounded_fifo_histories_witness:
  "anomaly_history example_world = [] \<and> length [0..<1500] = 1500 \<and>
   anomaly_history (add_anomalies [0..<1500] example_world) = [500..<1500] \<and>
   length (anomaly_history (add_anomalies [0..<1000] example_world)) = 1000 \<and>
   length (traffic_stats (add_traffic_samples (replicate 100 (1, 0)) example_world)) = 100 \<and>
   anomaly_history (snd (add_anomaly 1000 (add_anomalies [0..<1000] example_world))) =
     tl (anomaly_history (add_anomalies [0..<1000] example_world)) @ [1000] \<and>
   length (traffic_stats (snd (add_traffic_data 1 0
     (add_traffic_samples (replicate 100 (1, 0)) example_world)))) \<le> 100 \<and>
   length (anomaly_history (poll_cycle RequestError
     (add_anomalies [0..<1000] example_world))) \<le> 1000"
proof -
  have e: "anomaly_history example_world = []" "traffic_stats example_world = []"
    by (simp_all add: example_world_def initial_world_fields)
  have h: "anomaly_history (add_anomalies [0..<1000] example_world) = [0..<1000]"
    using add_anomalies_history [of example_world "[0..<1000]"]
    by (simp add: e history_maxlen_def)
  have t: "length (traffic_stats (add_traffic_samples (replicate 100 (1, 0)) example_world)) = 100"
    using length_add_traffic_samples [of example_world "replicate 100 (1, 0)"]
    by (simp add: e traffic_maxlen_def)
  have t0: "traffic_stats (add_anomalies as w) = traffic_stats w" for as w
    by (induction as arbitrary: w) (simp_all add: add_anomaly_traffic_stats)
  have h0: "anomaly_history (add_traffic_samples ps w) = anomaly_history w" for ps w
    by (induction ps arbitrary: w) (simp_all add: add_traffic_data_def now_def)
  show ?thesis
    using bounded_fifo_histories [of example_world 0 1 0 RequestError "[0..<1500]"]
      bounded_fifo_histories [of "add_anomalies [0..<1000] example_world" 1000 1 0
        RequestError "[]"]
      bounded_fifo_histories [of "add_traffic_samples (replicate 100 (1, 0)) example_world"
        0 1 0 RequestError "[]"]
    by (simp add: e h t t0 h0)
qed

subsection \<open>The most recent anomalies\<close>

text \<open>
  C9. With \<open>limit = 0\<close> the endpoint returns the whole history, since \<^verbatim>\<open>[-0:]\<close> is
  \<^verbatim>\<open>[0:]\<close>; with \<open>limit \<ge> 1\<close> it returns the last \<open>limit\<close> entries (all of them
  when there are fewer) in insertion order. The total is the length of the history in both
  cases.
\<close>

theorem get_recent_anomalies_limit:
  "get_recent_anomalies 0 w = (anomaly_history w, length (anomaly_history w)) \<and>
   (1 \<le> limit \<longrightarrow>
      get_recent_anomalies limit w =
        (drop (length (anomaly_history w) - nat limit) (anomaly_history w),
         length (anomaly_history w)) \<and>
      length (fst (get_recent_anomalies limit w)) = min (nat limit) (length (anomaly_history w)))"
proof -
  have "slice_bound (- limit) n = n - nat limit" if "1 \<le> limit" for n
    using that by (simp add: slice_bound_def)
  moreover have "slice_bound 0 n = 0" for n
    by (simp add: slice_bound_def)
  ultimately show ?thesis
    by (auto simp: get_recent_anomalies_def slice_from_def Let_def)
qed

theorem get_recent_anomalies_limit_witness:
  "(1::int) \<le> 2 \<and>
   get_recent_anomalies 0 (add_anomalies [0, 1, 2] example_world) = ([0, 1, 2], 3) \<and>
   get_recent_anomalies 2 (add_anomalies [0, 1, 2] example_world) = ([1, 2], 2 + 1)"
proof -
  have "anomaly_history (add_anomalies [0, 1, 2] example_world) = [0, 1, 2]"
    using add_anomalies_history [of example_world "[0, 1, 2]"]
    by (simp add: example_world_def initial_world_fields history_maxlen_def)
  then show ?thesis
    using get_recent_anomalies_limit [of "add_anomalies [0, 1, 2] example_world" 2]
    by simp
qed

subsection \<open>Broadcast\<close>

lemma filter_upt_Suc:
  "filter P [0..<Suc n] = (if P 0 then [0] else []) @ map Suc (filter (\<lambda>i. P (Suc i)) [0..<n])"
proof -
  have "[0..<Suc n] = 0 # map Suc [0..<n]"
    by (simp add: upt_conv_Cons map_Suc_upt del: upt_Suc)
  then show ?thesis
    by (simp add: filter_map comp_def del: upt_Suc)
qed

lemma failed_Cons:
  "{(c # cs) ! i | i. i < Suc (length cs) \<and> \<not> ok i} =
     (if ok 0 then {} else {c}) \<union> {cs ! i | i. i < length cs \<and> \<not> ok (Suc i)}"
proof -
  have "\<exists>j. (c # cs) ! i = cs ! j \<and> j < length cs \<and> \<not> ok (Suc j)"
    if "i < Suc (length cs)" "\<not> ok i" "(c # cs) ! i \<noteq> c \<or> ok 0" for i
    using that by (cases i) auto
  moreover have "\<exists>i. cs ! j = (c # cs) ! i \<and> i < Suc (length cs) \<and> \<not> ok i"
    if "j < length cs" "\<not> ok (Suc j)" for j
    using that by (intro exI [of _ "Suc j"]) simp
  moreover have "\<exists>i. c = (c # cs) ! i \<and> i < Suc (length cs) \<and> \<not> ok i" if "\<not> ok 0"
    using that by (intro exI [of _ 0]) simp
  ultimately show ?thesis
    by (auto split: if_splits)
qed

lemma broadcast_loop_distinct:
  assumes "distinct cs" "distinct (active_connections w)" "set cs \<subseteq> set (active_connections w)"
    and "\<forall>n. interleaved w n = []"
  shows "fst (broadcast_loop m cs w) = None \<and>
         active_connections (snd (broadcast_loop m cs w)) =
           filter (\<lambda>x. x \<notin> {cs ! i | i. i < length cs \<and> \<not> send_ok w i}) (active_connections w) \<and>
         sent (snd (broadcast_loop m cs w)) =
           sent w @ map (\<lambda>i. (cs ! i, m)) (filter (send_ok w) [0..<length cs]) \<and>
         send_ok (snd (broadcast_loop m cs w)) = (\<lambda>n. send_ok w (n + length cs)) \<and>
         interleaved (snd (broadcast_loop m cs w)) = interleaved w"
  using assms
proof (induction cs arbitrary: w)
  case Nil
  show ?case by simp
next
  case (Cons c cs)
  let ?F = "{cs ! i | i. i < length cs \<and> \<not> send_ok w (Suc i)}"
  show ?case
  proof (cases "send_ok w 0")
    case True
    define w1 where "w1 = w\<lparr>send_ok := (\<lambda>n. send_ok w (Suc n)), sent := sent w @ [(c, m)]\<rparr>"
    have idle: "await_point w = w"
      using Cons.prems(4) by (rule await_point_idle)
    have step: "broadcast_loop m (c # cs) w = broadcast_loop m cs w1"
      using True by (simp add: send_text_ok idle w1_def)
    have pre: "distinct cs" "distinct (active_connections w1)"
       "set cs \<subseteq> set (active_connections w1)" "\<forall>n. interleaved w1 n = []"
      using Cons.prems by (simp_all add: w1_def)
    have F: "{(c # cs) ! i | i. i < Suc (length cs) \<and> \<not> send_ok w i} = ?F"
      using True by (simp add: failed_Cons)
    show ?thesis
      using Cons.IH [OF pre] True
      unfolding step
      by (simp add: w1_def filter_upt_Suc F comp_def del: upt_Suc)
  next
    case False
    define w1 where "w1 = w\<lparr>send_ok := (\<lambda>n. send_ok w (Suc n)),
                            active_connections := remove1 c (active_connections w)\<rparr>"
    have mem: "c \<in> set (active_connections w)"
      using Cons.prems by simp
    have idle: "await_point w = w"
      using Cons.prems(4) by (rule await_point_idle)
    have step: "broadcast_loop m (c # cs) w = broadcast_loop m cs w1"
      using False mem by (simp add: send_text_fail idle w1_def list_remove_def)
    have rem: "remove1 c (active_connections w) = filter (\<lambda>x. x \<noteq> c) (active_connections w)"
    proof -
      have "filter ((\<noteq>) c) (active_connections w) = filter (\<lambda>x. x \<noteq> c) (active_connections w)"
        by (intro filter_cong) auto
      then show ?thesis
        using Cons.prems(2) by (simp add: distinct_remove1_removeAll removeAll_filter_not_eq)
    qed
    have pre: "distinct cs" "distinct (active_connections w1)"
       "set cs \<subseteq> set (active_connections w1)" "\<forall>n. interleaved w1 n = []"
      using Cons.prems by (auto simp: w1_def)
    have F: "{(c # cs) ! i | i. i < Suc (length cs) \<and> \<not> send_ok w i} = insert c ?F"
      using False by (simp add: failed_Cons)
    have fl: "filter (\<lambda>x. x \<notin> ?F) (filter (\<lambda>x. x \<noteq> c) (active_connections w)) =
              filter (\<lambda>x. x \<notin> insert c ?F) (active_connections w)"
      by (auto intro: filter_cong)
    show ?thesis
      using Cons.IH [OF pre] False fl
      unfolding step
      by (simp add: w1_def filter_upt_Suc F rem comp_def del: upt_Suc)
  qed
qed

lemma filter_not_failed:
  "distinct cs \<Longrightarrow>
   filter (\<lambda>x. x \<notin> {cs ! i | i. i < length cs \<and> \<not> ok i}) cs =
     map (nth cs) (filter ok [0..<length cs])"
proof (induction cs arbitrary: ok)
  case Nil
  show ?case by simp
next
  case (Cons c cs)
  let ?F = "{cs ! i | i. i < length cs \<and> \<not> ok (Suc i)}"
  have c: "c \<notin> ?F"
    using Cons.prems by auto
  have "filter (\<lambda>x. x \<notin> (if ok 0 then {} else {c}) \<union> ?F) cs = filter (\<lambda>x. x \<notin> ?F) cs"
    using Cons.prems by (intro filter_cong) auto
  then show ?case
    using Cons.IH [of "\<lambda>i. ok (Suc i)"] Cons.prems c
    by (simp add: failed_Cons filter_upt_Suc comp_def del: upt_Suc)
qed


lemma broadcast_distinct:
  assumes "distinct (active_connections w)" and "\<forall>n. interleaved w n = []"
  shows "fst (broadcast ty d w) = None \<and>
         active_connections (snd (broadcast ty d w)) =
           map (nth (active_connections w))
             (filter (send_ok w) [0..<length (active_connections w)]) \<and>
         sent (snd (broadcast ty d w)) =
           sent w @ map (\<lambda>i. (active_connections w ! i, \<lparr>msg_type = ty, msg_data = heap w d\<rparr>))
             (filter (send_ok w) [0..<length (active_connections w)]) \<and>
         send_ok (snd (broadcast ty d w)) = (\<lambda>n. send_ok w (n + length (active_connections w))) \<and>
         interleaved (snd (broadcast ty d w)) = interleaved w"
proof (cases "active_connections w = []")
  case True
  then show ?thesis by (simp add: broadcast_def)
next
  case False
  then show ?thesis
    using broadcast_loop_distinct [OF assms(1) assms(1) subset_refl assms(2),
        of "\<lparr>msg_type = ty, msg_data = heap w d\<rparr>"]
      filter_not_failed [OF assms(1), of "send_ok w"]
    by (simp add: broadcast_def)
qed

lemma distinct_map_nth_filter:
  "distinct cs \<Longrightarrow> distinct (map (nth cs) (filter P [0..<length cs]))"
  by (auto simp: distinct_map inj_on_def nth_eq_iff_index_eq)

text \<open>
  A broadcast during whose awaits no endpoint runs isolates the failures. With the live
  connections distinct, it returns normally whichever sends fail; it tries every
  connection once, in order; the connections whose send succeeded receive the message and
  stay in the live list, in order; a connection whose send failed is no longer in the live
  list; and every delivery of the next such broadcast goes to a connection that stayed.
\<close>

lemma broadcast_without_interleaving:
  assumes "distinct (active_connections w)" and "\<forall>n. interleaved w n = []"
  shows "fst (broadcast ty d w) = None \<and>
         active_connections (snd (broadcast ty d w)) =
           map (nth (active_connections w))
             (filter (send_ok w) [0..<length (active_connections w)]) \<and>
         sent (snd (broadcast ty d w)) =
           sent w @ map (\<lambda>i. (active_connections w ! i, \<lparr>msg_type = ty, msg_data = heap w d\<rparr>))
             (filter (send_ok w) [0..<length (active_connections w)]) \<and>
         (\<forall>i < length (active_connections w).
            if send_ok w i
            then active_connections w ! i \<in> set (active_connections (snd (broadcast ty d w))) \<and>
                 (active_connections w ! i, \<lparr>msg_type = ty, msg_data = heap w d\<rparr>)
                   \<in> set (sent (snd (broadcast ty d w)))
            else active_connections w ! i \<notin> set (active_connections (snd (broadcast ty d w)))) \<and>
         fst (broadcast ty' d' (snd (broadcast ty d w))) = None \<and>
         fst ` set (drop (length (sent (snd (broadcast ty d w))))
                      (sent (snd (broadcast ty' d' (snd (broadcast ty d w))))))
           \<subseteq> set (active_connections (snd (broadcast ty d w)))"
proof -
  let ?cs = "active_connections w"
  let ?w' = "snd (broadcast ty d w)"
  let ?m = "\<lparr>msg_type = ty, msg_data = heap w d\<rparr>"
  let ?ok = "filter (send_ok w) [0..<length ?cs]"
  note b = broadcast_distinct [OF assms, of ty d]
  have q': "\<forall>n. interleaved ?w' n = []"
    using b assms(2) by simp
  have r1: "fst (broadcast ty d w) = None"
    using b by (rule conjunct1)
  have live: "active_connections ?w' = map (nth ?cs) ?ok"
    using b [THEN conjunct2, THEN conjunct1] .
  have r3: "sent ?w' = sent w @ map (\<lambda>i. (?cs ! i, ?m)) ?ok"
    using b [THEN conjunct2, THEN conjunct2, THEN conjunct1] .
  have d': "distinct (active_connections ?w')"
    unfolding live by (rule distinct_map_nth_filter [OF assms(1)])
  note b' = broadcast_distinct [OF d' q', of ty' d']
  have r5: "fst (broadcast ty' d' ?w') = None"
    using b' by (rule conjunct1)
  have s': "sent (snd (broadcast ty' d' ?w')) =
              sent ?w' @ map (\<lambda>i. (active_connections ?w' ! i,
                                    \<lparr>msg_type = ty', msg_data = heap ?w' d'\<rparr>))
                (filter (send_ok ?w') [0..<length (active_connections ?w')])"
    using b' [THEN conjunct2, THEN conjunct2, THEN conjunct1] .
  have later: "fst ` set (drop (length (sent ?w')) (sent (snd (broadcast ty' d' ?w'))))
                 \<subseteq> set (active_connections ?w')"
  proof -
    have "drop (length (sent ?w')) (sent (snd (broadcast ty' d' ?w'))) =
            map (\<lambda>i. (active_connections ?w' ! i, \<lparr>msg_type = ty', msg_data = heap ?w' d'\<rparr>))
              (filter (send_ok ?w') [0..<length (active_connections ?w')])"
      by (subst s') simp
    then show ?thesis
      by (simp only:) auto
  qed
  have each: "if send_ok w i
            then ?cs ! i \<in> set (active_connections ?w') \<and> (?cs ! i, ?m) \<in> set (sent ?w')
            else ?cs ! i \<notin> set (active_connections ?w')"
    if i: "i < length ?cs" for i
  proof (cases "send_ok w i")
    case True
    then have mem: "i \<in> set ?ok"
      using i by simp
    have "?cs ! i \<in> set (map (nth ?cs) ?ok)"
      using mem by (simp only: set_map) (rule imageI)
    moreover have "(?cs ! i, ?m) \<in> set (map (\<lambda>i. (?cs ! i, ?m)) ?ok)"
      using mem by (simp only: set_map) (rule imageI)
    ultimately show ?thesis
      using True by (simp add: live r3)
  next
    case False
    have ne: "?cs ! j \<noteq> ?cs ! i" if j: "j < length ?cs" "send_ok w j" for j
    proof
      assume "?cs ! j = ?cs ! i"
      then have "j = i"
        using assms(1) j(1) i by (simp add: nth_eq_iff_index_eq)
      then show False using j(2) False by simp
    qed
    have "?cs ! i \<notin> set (active_connections ?w')"
    proof
      assume "?cs ! i \<in> set (active_connections ?w')"
      then obtain j where "j < length ?cs" "send_ok w j" "?cs ! j = ?cs ! i"
        unfolding live by auto
      then show False using ne by blast
    qed
    then show ?thesis
      using False by simp
  qed
  then have all: "\<forall>i < length ?cs.
            if send_ok w i
            then ?cs ! i \<in> set (active_connections ?w') \<and> (?cs ! i, ?m) \<in> set (sent ?w')
            else ?cs ! i \<notin> set (active_connections ?w')"
    by (intro allI impI)
  show ?thesis
    by (intro conjI) (fact r1, fact live, fact r3, fact all, fact r5, fact later)
qed

lemma three_observers_broadcast:
  "distinct (active_connections three_observers) \<and>
   active_connections three_observers = [1, 2, 3] \<and>
   fst (broadcast ''new_anomaly'' 0 three_observers) = None \<and>
   active_connections (snd (broadcast ''new_anomaly'' 0 three_observers)) = [1, 3] \<and>
   sent (snd (broadcast ''new_anomaly'' 0 three_observers)) =
     [(1, \<lparr>msg_type = ''new_anomaly'', msg_data = []\<rparr>),
      (3, \<lparr>msg_type = ''new_anomaly'', msg_data = []\<rparr>)] \<and>
   fst ` set (drop (length (sent (snd (broadcast ''new_anomaly'' 0 three_observers))))
     (sent (snd (broadcast ''stats_update'' 0
        (snd (broadcast ''new_anomaly'' 0 three_observers))))))
     \<subseteq> set (active_connections (snd (broadcast ''new_anomaly'' 0 three_observers)))"
proof -
  have cs: "active_connections three_observers = [1, 2, 3]"
    by (simp add: three_observers_def active_connections_connect initial_world_fields)
  have f: "filter (send_ok three_observers) [0..<length [1::nat, 2, 3]] = [0, 2]"
    by (simp add: three_observers_def connect_def initial_world_fields second_send_fails_def)
  have h: "sent three_observers = []" "heap three_observers 0 = []"
    by (simp_all add: three_observers_def connect_def initial_world_fields)
  have d: "distinct (active_connections three_observers)"
    unfolding cs by simp
  have q: "\<forall>n. interleaved three_observers n = []"
    by (simp add: three_observers_def connect_def initial_world_fields)
  note t = broadcast_without_interleaving [OF d q, of "''new_anomaly''" 0
      "''stats_update''" 0]
  have a: "active_connections (snd (broadcast ''new_anomaly'' 0 three_observers)) = [1, 3]"
    using t [THEN conjunct2, THEN conjunct1] unfolding cs f by simp
  have s: "sent (snd (broadcast ''new_anomaly'' 0 three_observers)) =
     [(1, \<lparr>msg_type = ''new_anomaly'', msg_data = []\<rparr>),
      (3, \<lparr>msg_type = ''new_anomaly'', msg_data = []\<rparr>)]"
    using t [THEN conjunct2, THEN conjunct2, THEN conjunct1] unfolding cs f h by simp
  show ?thesis
    by (intro conjI) (fact d, fact cs, fact t [THEN conjunct1], fact a, fact s,
      fact t [THEN conjunct2, THEN conjunct2, THEN conjunct2, THEN conjunct2, THEN conjunct2])
qed

text \<open>
  C7 fails on the code when an endpoint runs during an await of the broadcast. Observers
  1, 2 and 3 are connected and observer 2 cannot be written to. While the send to observer
  1 is awaited, the endpoint of observer 2 calls \<^verbatim>\<open>disconnect\<close> (line 159). The send
  to observer 2 then raises, the \<^verbatim>\<open>remove\<close> of line 44 raises \<^verbatim>\<open>ValueError\<close>
  inside the handler, and the broadcast ends there: only observer 1 has received the
  message, and observer 3, still in the live list, has not.
\<close>

theorem broadcast_aborts_after_concurrent_disconnect:
  "active_connections racing_observers = [1, 2, 3] \<and>
   fst (broadcast ''new_anomaly'' 0 racing_observers) = Some ValueError \<and>
   sent (snd (broadcast ''new_anomaly'' 0 racing_observers)) =
     [(1, \<lparr>msg_type = ''new_anomaly'', msg_data = []\<rparr>)] \<and>
   active_connections (snd (broadcast ''new_anomaly'' 0 racing_observers)) = [1, 3]"
  by (simp add: racing_observers_def three_observers_def broadcast_def send_text_def
      await_point_def run_action_def connect_def disconnect_def list_remove_def
      disconnect_2_during_first_send_def second_send_fails_def initial_world_def Let_def)

subsection \<open>Ingesting one anomaly\<close>

lemma add_anomaly_heap:
  "heap (snd (add_anomaly a w)) =
     (heap w)(a := setitem ''timestamp'' (PStr (isoformat (clock w 0))) (heap w a))"
  by (simp add: add_anomaly_def now_def Let_def)

lemma add_anomaly_frame:
  "next_addr (snd (add_anomaly a w)) = next_addr w"
  "active_connections (snd (add_anomaly a w)) = active_connections w"
  "sent (snd (add_anomaly a w)) = sent w"
  "send_ok (snd (add_anomaly a w)) = send_ok w"
  by (simp_all add: add_anomaly_def now_def Let_def)

lemma add_anomaly_fst:
  "fst (add_anomaly a w) =
     (if hashable (dict_get (heap w a) ''src_ip'' (PStr ''Unknown'')) \<and>
         hashable (dict_get (heap w a) ''protocol'' (PStr ''Unknown''))
      then None else Some TypeError)"
  by (simp add: add_anomaly_def now_def Let_def dict_get_setitem)

lemma dict_get_dd_update:
  "dict_get (dd_update k dflt f d) k dflt' = f (dict_get d k dflt)"
  by (simp add: dd_update_def dict_get_setitem)

lemma dict_get_dd_update_other:
  "k' \<noteq> k \<Longrightarrow> dict_get (dd_update k dflt f d) k' dflt' = dict_get d k' dflt'"
  by (simp add: dd_update_def dict_get_setitem)

lemma add_anomaly_ip_stats:
  "hashable (dict_get (heap w a) ''src_ip'' (PStr ''Unknown'')) \<Longrightarrow>
   ip_stats (snd (add_anomaly a w)) =
     dd_update (dict_get (heap w a) ''src_ip'' (PStr ''Unknown'')) default_ip_stat
       (\<lambda>s. s\<lparr>last_seen := Some (isoformat (clock w 1))\<rparr>)
       (dd_update (dict_get (heap w a) ''src_ip'' (PStr ''Unknown'')) default_ip_stat
          (\<lambda>s. s\<lparr>count := count s + 1\<rparr>) (ip_stats w))"
  by (simp add: add_anomaly_def now_def Let_def dict_get_setitem)

lemma add_anomaly_protocol_stats:
  "hashable (dict_get (heap w a) ''src_ip'' (PStr ''Unknown'')) \<Longrightarrow>
   hashable (dict_get (heap w a) ''protocol'' (PStr ''Unknown'')) \<Longrightarrow>
   protocol_stats (snd (add_anomaly a w)) =
     dd_update (dict_get (heap w a) ''protocol'' (PStr ''Unknown'')) 0 (\<lambda>c. c + 1)
       (protocol_stats w)"
  by (simp add: add_anomaly_def now_def Let_def dict_get_setitem)

text \<open>
  C8, as the code has it. On a record whose \<^verbatim>\<open>src_ip\<close> and \<^verbatim>\<open>protocol\<close>, where
  present, are hashable values, \<^verbatim>\<open>add_anomaly\<close> returns normally; a missing
  \<^verbatim>\<open>src_ip\<close> or \<^verbatim>\<open>protocol\<close> is counted under the key \<^verbatim>\<open>'Unknown'\<close>; and the
  stored record is the caller's record with \<^verbatim>\<open>timestamp\<close> set and every other key as
  it was, so a missing numeric field stays missing.
\<close>

theorem add_anomaly_unknown_defaults:
  assumes "hashable (case map_of (heap w a) ''src_ip'' of None \<Rightarrow> PStr ''Unknown'' | Some v \<Rightarrow> v)"
    and "hashable (case map_of (heap w a) ''protocol'' of None \<Rightarrow> PStr ''Unknown'' | Some v \<Rightarrow> v)"
  shows "fst (add_anomaly a w) = None \<and>
    dict_get (ip_stats (snd (add_anomaly a w)))
        (case map_of (heap w a) ''src_ip'' of None \<Rightarrow> PStr ''Unknown'' | Some v \<Rightarrow> v)
        default_ip_stat =
      \<lparr>count = count (dict_get (ip_stats w)
          (case map_of (heap w a) ''src_ip'' of None \<Rightarrow> PStr ''Unknown'' | Some v \<Rightarrow> v)
          default_ip_stat) + 1,
       last_seen = Some (isoformat (clock w 1))\<rparr> \<and>
    dict_get (protocol_stats (snd (add_anomaly a w)))
        (case map_of (heap w a) ''protocol'' of None \<Rightarrow> PStr ''Unknown'' | Some v \<Rightarrow> v) 0 =
      dict_get (protocol_stats w)
        (case map_of (heap w a) ''protocol'' of None \<Rightarrow> PStr ''Unknown'' | Some v \<Rightarrow> v) 0 + 1 \<and>
    map_of (heap (snd (add_anomaly a w)) a) ''timestamp'' = Some (PStr (isoformat (clock w 0))) \<and>
    (\<forall>k. k \<noteq> ''timestamp'' \<longrightarrow>
       map_of (heap (snd (add_anomaly a w)) a) k = map_of (heap w a) k)"
proof -
  let ?ip = "dict_get (heap w a) ''src_ip'' (PStr ''Unknown'')"
  let ?pr = "dict_get (heap w a) ''protocol'' (PStr ''Unknown'')"
  have h: "hashable ?ip" "hashable ?pr"
    using assms by (simp_all add: dict_get_def)
  have ip: "(case map_of (heap w a) ''src_ip'' of None \<Rightarrow> PStr ''Unknown'' | Some v \<Rightarrow> v) = ?ip"
    and pr: "(case map_of (heap w a) ''protocol'' of None \<Rightarrow> PStr ''Unknown'' | Some v \<Rightarrow> v) = ?pr"
    by (simp_all add: dict_get_def)
  have r1: "fst (add_anomaly a w) = None"
    using h by (simp add: add_anomaly_fst)
  have r2: "dict_get (ip_stats (snd (add_anomaly a w))) ?ip default_ip_stat =
      \<lparr>count = count (dict_get (ip_stats w) ?ip default_ip_stat) + 1,
       last_seen = Some (isoformat (clock w 1))\<rparr>"
    using h by (simp add: add_anomaly_ip_stats dict_get_dd_update)
  have r3: "dict_get (protocol_stats (snd (add_anomaly a w))) ?pr 0 =
      dict_get (protocol_stats w) ?pr 0 + 1"
    using h by (simp add: add_anomaly_protocol_stats dict_get_dd_update)
  have r4: "map_of (heap (snd (add_anomaly a w)) a) ''timestamp'' =
      Some (PStr (isoformat (clock w 0)))"
    by (simp add: add_anomaly_heap map_of_setitem)
  have r5: "\<forall>k. k \<noteq> ''timestamp'' \<longrightarrow>
       map_of (heap (snd (add_anomaly a w)) a) k = map_of (heap w a) k"
    by (simp add: add_anomaly_heap map_of_setitem)
  show ?thesis
    unfolding ip pr by (intro conjI) (fact r1, fact r2, fact r3, fact r4, fact r5)
qed

lemma heap_alloc: "heap (snd (alloc d w)) (next_addr w) = d"
  by (simp add: alloc_def)

lemma alloc_frame:
  "ip_stats (snd (alloc d w)) = ip_stats w"
  "protocol_stats (snd (alloc d w)) = protocol_stats w"
  "clock (snd (alloc d w)) = clock w"
  "anomaly_history (snd (alloc d w)) = anomaly_history w"
  "sent (snd (alloc d w)) = sent w"
  "active_connections (snd (alloc d w)) = active_connections w"
  "send_ok (snd (alloc d w)) = send_ok w"
  "next_addr (snd (alloc d w)) = Suc (next_addr w)"
  "fst (alloc d w) = next_addr w"
  by (simp_all add: alloc_def)

theorem add_anomaly_unknown_defaults_witness:
  "hashable (case map_of (heap (snd (alloc record_without_strings example_world)) 0) ''src_ip''
             of None \<Rightarrow> PStr ''Unknown'' | Some v \<Rightarrow> v) \<and>
   hashable (case map_of (heap (snd (alloc record_without_strings example_world)) 0) ''protocol''
             of None \<Rightarrow> PStr ''Unknown'' | Some v \<Rightarrow> v) \<and>
   fst (add_anomaly 0 (snd (alloc record_without_strings example_world))) = None \<and>
   dict_get (ip_stats (snd (add_anomaly 0 (snd (alloc record_without_strings example_world)))))
     (PStr ''Unknown'') default_ip_stat =
     \<lparr>count = 1, last_seen = Some (isoformat (example_clock 1))\<rparr> \<and>
   dict_get (protocol_stats (snd (add_anomaly 0 (snd (alloc record_without_strings example_world)))))
     (PStr ''Unknown'') 0 = 1"
proof -
  let ?w = "snd (alloc record_without_strings example_world)"
  have h: "heap ?w 0 = record_without_strings"
    using heap_alloc [of record_without_strings example_world]
    by (simp add: example_world_def initial_world_fields)
  have m: "map_of record_without_strings ''src_ip'' = None"
    "map_of record_without_strings ''protocol'' = None"
    by (simp_all add: record_without_strings_def)
  have e: "ip_stats ?w = []" "protocol_stats ?w = []" "clock ?w = example_clock"
    by (simp_all add: alloc_frame example_world_def initial_world_fields)
  show ?thesis
    using add_anomaly_unknown_defaults [of ?w 0]
    by (simp add: h m e dict_get_def default_ip_stat_def)
qed

text \<open>
  C8 as the specification states it fails twice. A record without \<^verbatim>\<open>score\<close> and
  \<^verbatim>\<open>result\<close> is stored without them: no numeric field is given a default. And a
  record whose \<^verbatim>\<open>src_ip\<close> is a JSON array makes \<^verbatim>\<open>add_anomaly\<close> raise
  \<^verbatim>\<open>TypeError\<close>: there is an error path.
\<close>

theorem add_anomaly_no_numeric_default_counterexample:
  "fst (add_anomaly 0 (snd (alloc record_without_numbers example_world))) = None \<and>
   map_of (heap (snd (add_anomaly 0 (snd (alloc record_without_numbers example_world)))) 0)
     ''score'' = None \<and>
   map_of (heap (snd (add_anomaly 0 (snd (alloc record_without_numbers example_world)))) 0)
     ''result'' = None \<and>
   fst (add_anomaly 0 (snd (alloc record_list_ip example_world))) = Some TypeError"
proof -
  have n: "next_addr example_world = 0"
    by (simp add: example_world_def initial_world_fields)
  have h1: "heap (snd (alloc record_without_numbers example_world)) 0 = record_without_numbers"
    using heap_alloc [of record_without_numbers example_world] by (simp add: n)
  have h2: "heap (snd (alloc record_list_ip example_world)) 0 = record_list_ip"
    using heap_alloc [of record_list_ip example_world] by (simp add: n)
  show ?thesis
    unfolding add_anomaly_fst add_anomaly_heap h1 h2
    by (simp add: map_of_setitem h1 dict_get_def record_without_numbers_def record_list_ip_def)
qed

subsection \<open>What the poller broadcasts\<close>

lemma broadcast_loop_sent:
  "\<exists>ds. sent (snd (broadcast_loop m cs w)) = sent w @ map (\<lambda>c. (c, m)) ds \<and> set ds \<subseteq> set cs"
proof (induction cs arbitrary: w)
  case Nil
  show ?case by (rule exI [of _ "[]"]) simp
next
  case (Cons c cs)
  have ih: "\<exists>ds. sent (snd (broadcast_loop m cs v)) = sent v @ map (\<lambda>c. (c, m)) ds \<and>
                 set ds \<subseteq> set cs" for v
    by (rule Cons)
  show ?case
  proof (cases "send_ok w 0")
    case True
    define w1 where
      "w1 = (await_point w)\<lparr>send_ok := (\<lambda>n. send_ok w (Suc n)), sent := sent w @ [(c, m)]\<rparr>"
    have step: "broadcast_loop m (c # cs) w = broadcast_loop m cs w1"
      using True by (simp add: send_text_ok w1_def)
    from ih [of w1] obtain ds
      where ds: "sent (snd (broadcast_loop m cs w1)) = sent w1 @ map (\<lambda>c. (c, m)) ds"
        and sub: "set ds \<subseteq> set cs"
      by (elim exE conjE)
    have s1: "sent w1 = sent w @ [(c, m)]"
      by (simp add: w1_def)
    show ?thesis
    proof (intro exI [of _ "c # ds"] conjI)
      show "sent (snd (broadcast_loop m (c # cs) w)) = sent w @ map (\<lambda>c. (c, m)) (c # ds)"
        by (simp only: step ds s1) simp
      show "set (c # ds) \<subseteq> set (c # cs)"
        using sub by auto
    qed
  next
    case False
    show ?thesis
    proof (cases "c \<in> set (active_connections (await_point w))")
      case True
      define w1 where "w1 = (await_point w)\<lparr>send_ok := (\<lambda>n. send_ok w (Suc n)),
                              active_connections := remove1 c (active_connections (await_point w))\<rparr>"
      have step: "broadcast_loop m (c # cs) w = broadcast_loop m cs w1"
        using False True by (simp add: send_text_fail w1_def list_remove_def)
      from ih [of w1] obtain ds
        where ds: "sent (snd (broadcast_loop m cs w1)) = sent w1 @ map (\<lambda>c. (c, m)) ds"
          and sub: "set ds \<subseteq> set cs"
        by (elim exE conjE)
      have s1: "sent w1 = sent w"
        by (simp add: w1_def await_point_frame)
      show ?thesis
      proof (intro exI [of _ ds] conjI)
        show "sent (snd (broadcast_loop m (c # cs) w)) = sent w @ map (\<lambda>c. (c, m)) ds"
          by (simp only: step ds s1)
        show "set ds \<subseteq> set (c # cs)"
          using sub by auto
      qed
    next
      case absent: False
      have "sent (snd (broadcast_loop m (c # cs) w)) = sent w"
        using False absent by (simp add: send_text_fail list_remove_def await_point_frame)
      then show ?thesis
        by (intro exI [of _ "[]"]) simp
    qed
  qed
qed

lemma broadcast_sent:
  "\<exists>ds. sent (snd (broadcast ty d w)) =
          sent w @ map (\<lambda>c. (c, \<lparr>msg_type = ty, msg_data = heap w d\<rparr>)) ds \<and>
        set ds \<subseteq> set (active_connections w)"
proof (cases "active_connections w = []")
  case True
  then have "sent (snd (broadcast ty d w)) = sent w"
    by (simp add: broadcast_def)
  then show ?thesis
    by (intro exI [of _ "[]"]) simp
next
  case False
  then show ?thesis
    using broadcast_loop_sent [of "\<lparr>msg_type = ty, msg_data = heap w d\<rparr>" "active_connections w" w]
    by (simp add: broadcast_def)
qed

lemma add_traffic_data_frame:
  "heap (snd (add_traffic_data x y w)) = heap w"
  "sent (snd (add_traffic_data x y w)) = sent w"
  "anomaly_history (snd (add_traffic_data x y w)) = anomaly_history w"
  "active_connections (snd (add_traffic_data x y w)) = active_connections w"
  by (simp_all add: add_traffic_data_def now_def)

lemma process_single:
  "process_anomalies [a] w =
     (if in_history a w then (None, w)
      else if fst (add_anomaly a w) \<noteq> None then add_anomaly a w
      else broadcast ''new_anomaly'' a (snd (add_anomaly a w)))"
proof -
  obtain e1 w1 where a1: "add_anomaly a w = (e1, w1)"
    by (cases "add_anomaly a w")
  obtain e2 w2 where a2: "broadcast ''new_anomaly'' a w1 = (e2, w2)"
    by (cases "broadcast ''new_anomaly'' a w1")
  show ?thesis
    by (cases e1; cases e2) (simp_all add: a1 a2)
qed

lemma poll_cycle_single:
  "poll_cycle (Response 200 [r]) w =
     (if fst (process_anomalies [next_addr w] (snd (alloc r w))) \<noteq> None
      then snd (process_anomalies [next_addr w] (snd (alloc r w)))
      else snd (add_traffic_data 101
        (int (length (filter (\<lambda>a. map_of
            (heap (snd (process_anomalies [next_addr w] (snd (alloc r w)))) a) ''result'' =
               Some (PInt (- 1))) [next_addr w])))
        (snd (process_anomalies [next_addr w] (snd (alloc r w))))))"
proof -
  obtain e w2 where p: "process_anomalies [next_addr w] (snd (alloc r w)) = (e, w2)"
    by (cases "process_anomalies [next_addr w] (snd (alloc r w))")
  have al: "alloc_all [r] w = ([next_addr w], snd (alloc r w))"
    by (simp add: alloc_def)
  show ?thesis
    by (cases e)
      (simp_all add: poll_cycle_def al p Let_def del: alloc_all.simps process_anomalies.simps)
qed


lemma process_single_sent:
  "\<exists>ds. sent (snd (process_anomalies [a] w)) =
          sent w @ map (\<lambda>c. (c, \<lparr>msg_type = ''new_anomaly'',
            msg_data = setitem ''timestamp'' (PStr (isoformat (clock w 0))) (heap w a)\<rparr>)) ds \<and>
        set ds \<subseteq> set (active_connections w)"
proof (cases "in_history a w \<or> fst (add_anomaly a w) \<noteq> None")
  case True
  then have "sent (snd (process_anomalies [a] w)) = sent w"
    unfolding process_single by (auto simp: add_anomaly_frame)
  then show ?thesis
    by (intro exI [of _ "[]"]) simp
next
  case False
  let ?w1 = "snd (add_anomaly a w)"
  have p: "process_anomalies [a] w = broadcast ''new_anomaly'' a ?w1"
    using False unfolding process_single by simp
  have h: "heap ?w1 a = setitem ''timestamp'' (PStr (isoformat (clock w 0))) (heap w a)"
    by (simp add: add_anomaly_heap)
  show ?thesis
    using broadcast_sent [of "''new_anomaly''" a ?w1]
    unfolding p h by (simp add: add_anomaly_frame)
qed

lemma process_single_stored:
  assumes "\<not> in_history a w"
  shows "heap (snd (process_anomalies [a] w)) a =
           setitem ''timestamp'' (PStr (isoformat (clock w 0))) (heap w a) \<and>
         last (anomaly_history (snd (process_anomalies [a] w))) = a"
proof -
  let ?w1 = "snd (add_anomaly a w)"
  have pos: "0 < history_maxlen" by (simp add: history_maxlen_def)
  have w1: "heap ?w1 a = setitem ''timestamp'' (PStr (isoformat (clock w 0))) (heap w a)"
    "last (anomaly_history ?w1) = a"
    using last_deque_append [OF pos] by (simp_all add: add_anomaly_heap add_anomaly_history)
  show ?thesis
  proof (cases "fst (add_anomaly a w) \<noteq> None")
    case True
    then have "process_anomalies [a] w = add_anomaly a w"
      using assms unfolding process_single by simp
    then show ?thesis using w1 by simp
  next
    case False
    then have "process_anomalies [a] w = broadcast ''new_anomaly'' a ?w1"
      using assms unfolding process_single by simp
    then show ?thesis using w1 by (simp add: broadcast_frame)
  qed
qed

lemma poll_cycle_single_fields:
  "heap (poll_cycle (Response 200 [r]) w) =
     heap (snd (process_anomalies [next_addr w] (snd (alloc r w))))"
  "sent (poll_cycle (Response 200 [r]) w) =
     sent (snd (process_anomalies [next_addr w] (snd (alloc r w))))"
  "anomaly_history (poll_cycle (Response 200 [r]) w) =
     anomaly_history (snd (process_anomalies [next_addr w] (snd (alloc r w))))"
  unfolding poll_cycle_single by (simp_all add: add_traffic_data_frame)

lemma add_anomaly_clock:
  "fst (add_anomaly a w) = None \<Longrightarrow>
   clock (snd (add_anomaly a w)) = (\<lambda>n. clock w (Suc (Suc (Suc n))))"
  by (simp add: add_anomaly_def now_def Let_def dict_get_setitem split: if_splits)

lemma process_step:
  "process_anomalies (a # rest) w =
     (if in_history a w then process_anomalies rest w
      else if fst (add_anomaly a w) \<noteq> None then add_anomaly a w
      else if fst (broadcast ''new_anomaly'' a (snd (add_anomaly a w))) \<noteq> None
        then broadcast ''new_anomaly'' a (snd (add_anomaly a w))
      else process_anomalies rest (snd (broadcast ''new_anomaly'' a (snd (add_anomaly a w)))))"
proof -
  obtain e1 w1 where a1: "add_anomaly a w = (e1, w1)"
    by (cases "add_anomaly a w")
  obtain e2 w2 where a2: "broadcast ''new_anomaly'' a w1 = (e2, w2)"
    by (cases "broadcast ''new_anomaly'' a w1")
  show ?thesis
    by (cases e1; cases e2) (simp_all add: a1 a2)
qed

lemma process_anomalies_heap_frame:
  "b \<notin> set as \<Longrightarrow> heap (snd (process_anomalies as w)) b = heap w b"
proof (induction as arbitrary: w)
  case Nil
  show ?case by simp
next
  case (Cons a as)
  let ?w1 = "snd (add_anomaly a w)"
  let ?w2 = "snd (broadcast ''new_anomaly'' a ?w1)"
  have b: "b \<noteq> a" "b \<notin> set as"
    using Cons.prems by auto
  have h1: "heap ?w1 b = heap w b"
    using b(1) by (simp add: add_anomaly_heap)
  have h2: "heap ?w2 b = heap w b"
    using h1 by (simp add: broadcast_frame)
  have ih: "heap (snd (process_anomalies as v)) b = heap v b" for v
    using b(2) by (rule Cons.IH)
  show ?case
    unfolding process_step by (simp add: ih h1 h2 del: process_anomalies.simps)
qed


lemma process_anomalies_announces:
  assumes "distinct as"
  shows "\<exists>news. sent (snd (process_anomalies as w)) = sent w @ news \<and>
           (\<forall>x \<in> set news. \<exists>a \<in> set as. \<exists>k.
              snd x = \<lparr>msg_type = ''new_anomaly'',
                       msg_data = setitem ''timestamp'' (PStr (isoformat (clock w k))) (heap w a)\<rparr> \<and>
              heap (snd (process_anomalies as w)) a = msg_data (snd x))"
  using assms
proof (induction as arbitrary: w)
  case Nil
  show ?case by (rule exI [of _ "[]"]) simp
next
  case (Cons a rest)
  let ?W = "snd (process_anomalies (a # rest) w)"
  let ?w1 = "snd (add_anomaly a w)"
  let ?w2 = "snd (broadcast ''new_anomaly'' a ?w1)"
  let ?M = "\<lambda>v k b. \<lparr>msg_type = ''new_anomaly'',
              msg_data = setitem ''timestamp'' (PStr (isoformat (clock v k))) (heap v b)\<rparr>"
  have d: "distinct rest" "a \<notin> set rest"
    using Cons.prems by simp_all
  have ih: "\<exists>news. sent (snd (process_anomalies rest v)) = sent v @ news \<and>
           (\<forall>x \<in> set news. \<exists>b \<in> set rest. \<exists>k. snd x = ?M v k b \<and>
              heap (snd (process_anomalies rest v)) b = msg_data (snd x))" for v
    using d(1) by (rule Cons.IH)
  have h1: "heap ?w1 a = setitem ''timestamp'' (PStr (isoformat (clock w 0))) (heap w a)"
    by (simp add: add_anomaly_heap)
  consider (dup) "in_history a w"
    | (err) "\<not> in_history a w" "fst (add_anomaly a w) \<noteq> None"
    | (stop) "\<not> in_history a w" "fst (add_anomaly a w) = None"
        "fst (broadcast ''new_anomaly'' a ?w1) \<noteq> None"
    | (go) "\<not> in_history a w" "fst (add_anomaly a w) = None"
        "fst (broadcast ''new_anomaly'' a ?w1) = None"
    by blast
  then show ?case
  proof cases
    case dup
    then have p: "process_anomalies (a # rest) w = process_anomalies rest w"
      unfolding process_step by simp
    from ih [of w] obtain news
      where s: "sent (snd (process_anomalies rest w)) = sent w @ news"
        and n: "\<forall>x \<in> set news. \<exists>b \<in> set rest. \<exists>k. snd x = ?M w k b \<and>
              heap (snd (process_anomalies rest w)) b = msg_data (snd x)"
      by (elim exE conjE)
    show ?thesis
    proof (intro exI [of _ news] conjI ballI)
      show "sent ?W = sent w @ news"
        unfolding p by (rule s)
    next
      fix x assume "x \<in> set news"
      with n obtain b k where "b \<in> set rest" "snd x = ?M w k b"
        "heap (snd (process_anomalies rest w)) b = msg_data (snd x)"
        by blast
      then show "\<exists>b \<in> set (a # rest). \<exists>k. snd x = ?M w k b \<and> heap ?W b = msg_data (snd x)"
        unfolding p by auto
    qed
  next
    case err
    then have p: "process_anomalies (a # rest) w = add_anomaly a w"
      unfolding process_step by simp
    show ?thesis
      unfolding p by (intro exI [of _ "[]"]) (simp add: add_anomaly_frame)
  next
    case stop
    then have p: "process_anomalies (a # rest) w = broadcast ''new_anomaly'' a ?w1"
      unfolding process_step by simp
    from broadcast_sent [of "''new_anomaly''" a ?w1] obtain ds
      where s: "sent ?w2 = sent ?w1 @
          map (\<lambda>c. (c, \<lparr>msg_type = ''new_anomaly'', msg_data = heap ?w1 a\<rparr>)) ds"
      by (elim exE conjE)
    show ?thesis
    proof (intro exI [of _ "map (\<lambda>c. (c, ?M w 0 a)) ds"] conjI ballI)
      show "sent ?W = sent w @ map (\<lambda>c. (c, ?M w 0 a)) ds"
        unfolding p s h1 by (simp add: add_anomaly_frame)
    next
      fix x assume "x \<in> set (map (\<lambda>c. (c, ?M w 0 a)) ds)"
      then have x: "snd x = ?M w 0 a"
        by auto
      have "heap ?W a = msg_data (snd x)"
        unfolding p x by (simp add: broadcast_frame h1)
      with x show "\<exists>b \<in> set (a # rest). \<exists>k. snd x = ?M w k b \<and> heap ?W b = msg_data (snd x)"
        by auto
    qed
  next
    case go
    then have p: "process_anomalies (a # rest) w = process_anomalies rest ?w2"
      unfolding process_step by simp
    from broadcast_sent [of "''new_anomaly''" a ?w1] obtain ds
      where s1: "sent ?w2 = sent ?w1 @
          map (\<lambda>c. (c, \<lparr>msg_type = ''new_anomaly'', msg_data = heap ?w1 a\<rparr>)) ds"
      by (elim exE conjE)
    from ih [of ?w2] obtain news
      where s2: "sent (snd (process_anomalies rest ?w2)) = sent ?w2 @ news"
        and n: "\<forall>x \<in> set news. \<exists>b \<in> set rest. \<exists>k. snd x = ?M ?w2 k b \<and>
              heap (snd (process_anomalies rest ?w2)) b = msg_data (snd x)"
      by (elim exE conjE)
    have c2: "clock ?w2 = (\<lambda>n. clock w (Suc (Suc (Suc n))))"
      using go(2) by (simp add: broadcast_frame add_anomaly_clock)
    have hb: "heap ?w2 b = heap w b" if "b \<in> set rest" for b
      using that d(2) by (auto simp: broadcast_frame add_anomaly_heap)
    have ha: "heap (snd (process_anomalies rest ?w2)) a = heap ?w1 a"
      using process_anomalies_heap_frame [OF d(2), of ?w2] by (simp add: broadcast_frame)
    show ?thesis
    proof (intro exI [of _ "map (\<lambda>c. (c, ?M w 0 a)) ds @ news"] conjI ballI)
      show "sent ?W = sent w @ map (\<lambda>c. (c, ?M w 0 a)) ds @ news"
        unfolding p s2 s1 h1 by (simp add: add_anomaly_frame)
    next
      fix x assume "x \<in> set (map (\<lambda>c. (c, ?M w 0 a)) ds @ news)"
      then consider (first) "snd x = ?M w 0 a" | (later) "x \<in> set news"
        by auto
      then show "\<exists>b \<in> set (a # rest). \<exists>k. snd x = ?M w k b \<and> heap ?W b = msg_data (snd x)"
      proof cases
        case first
        have "heap ?W a = msg_data (snd x)"
          unfolding p first ha by (simp add: h1)
        with first show ?thesis by auto
      next
        case later
        with n obtain b k where b: "b \<in> set rest" and m: "snd x = ?M ?w2 k b"
          and h: "heap (snd (process_anomalies rest ?w2)) b = msg_data (snd x)"
          by blast
        have "snd x = ?M w (Suc (Suc (Suc k))) b"
          unfolding m c2 by (simp add: hb [OF b])
        moreover have "heap ?W b = msg_data (snd x)"
          unfolding p by (rule h)
        ultimately show ?thesis
          using b by auto
      qed
    qed
  qed
qed


lemma alloc_all_Cons:
  "alloc_all (d # ds) w =
     (next_addr w # fst (alloc_all ds (snd (alloc d w))), snd (alloc_all ds (snd (alloc d w))))"
  by (simp add: alloc_def split: prod.splits)

lemma alloc_all_next: "next_addr (snd (alloc_all rs w)) = next_addr w + length rs"
proof (induction rs arbitrary: w)
  case Nil
  show ?case by simp
next
  case (Cons d ds)
  show ?case
    unfolding alloc_all_Cons by (simp add: Cons alloc_frame)
qed

lemma alloc_all_addrs:
  "fst (alloc_all rs w) = map (\<lambda>i. next_addr w + i) [0..<length rs]"
proof (induction rs arbitrary: w)
  case Nil
  show ?case by simp
next
  case (Cons d ds)
  have "[0..<Suc (length ds)] = 0 # map Suc [0..<length ds]"
    by (simp add: upt_conv_Cons map_Suc_upt del: upt_Suc)
  then show ?case
    unfolding alloc_all_Cons by (simp add: Cons alloc_frame comp_def del: upt_Suc)
qed

lemma alloc_all_heap_old:
  "b < next_addr w \<Longrightarrow> heap (snd (alloc_all rs w)) b = heap w b"
proof (induction rs arbitrary: w)
  case Nil
  show ?case by simp
next
  case (Cons d ds)
  have "heap (snd (alloc_all ds (snd (alloc d w)))) b = heap (snd (alloc d w)) b"
    using Cons.prems by (intro Cons.IH) (simp add: alloc_frame)
  then show ?case
    unfolding alloc_all_Cons using Cons.prems by (simp add: alloc_def)
qed

lemma alloc_all_heap:
  "i < length rs \<Longrightarrow> heap (snd (alloc_all rs w)) (next_addr w + i) = rs ! i"
proof (induction rs arbitrary: w i)
  case Nil
  then show ?case by simp
next
  case (Cons d ds)
  show ?case
  proof (cases i)
    case 0
    have "heap (snd (alloc_all ds (snd (alloc d w)))) (next_addr w) =
          heap (snd (alloc d w)) (next_addr w)"
      by (intro alloc_all_heap_old) (simp add: alloc_frame)
    then show ?thesis
      unfolding alloc_all_Cons using 0 by (simp add: heap_alloc)
  next
    case (Suc j)
    then have "j < length ds"
      using Cons.prems by simp
    from Cons.IH [OF this, of "snd (alloc d w)"] show ?thesis
      unfolding alloc_all_Cons using Suc by (simp add: alloc_frame)
  qed
qed

lemma alloc_all_env:
  "clock (snd (alloc_all rs w)) = clock w \<and> sent (snd (alloc_all rs w)) = sent w \<and>
   active_connections (snd (alloc_all rs w)) = active_connections w"
proof (induction rs arbitrary: w)
  case Nil
  show ?case by simp
next
  case (Cons d ds)
  show ?case
    unfolding alloc_all_Cons by (simp add: Cons alloc_frame)
qed

lemma poll_cycle_fields:
  "heap (poll_cycle (Response 200 rs) w) =
     heap (snd (process_anomalies (fst (alloc_all rs w)) (snd (alloc_all rs w))))"
  "sent (poll_cycle (Response 200 rs) w) =
     sent (snd (process_anomalies (fst (alloc_all rs w)) (snd (alloc_all rs w))))"
proof -
  obtain as w0 where al: "alloc_all rs w = (as, w0)"
    by (cases "alloc_all rs w")
  obtain e w2 where p: "process_anomalies as w0 = (e, w2)"
    by (cases "process_anomalies as w0")
  show "heap (poll_cycle (Response 200 rs) w) =
     heap (snd (process_anomalies (fst (alloc_all rs w)) (snd (alloc_all rs w))))"
    by (cases e) (simp_all add: poll_cycle_def al p Let_def add_traffic_data_frame)
  show "sent (poll_cycle (Response 200 rs) w) =
     sent (snd (process_anomalies (fst (alloc_all rs w)) (snd (alloc_all rs w))))"
    by (cases e) (simp_all add: poll_cycle_def al p Let_def add_traffic_data_frame)
qed

lemma poll_cycle_announces:
  "\<forall>x \<in> set (drop (length (sent w)) (sent (poll_cycle (Response 200 rs) w))).
     \<exists>i < length rs. \<exists>k.
       snd x = \<lparr>msg_type = ''new_anomaly'',
                msg_data = setitem ''timestamp'' (PStr (isoformat (clock w k))) (rs ! i)\<rparr> \<and>
       heap (poll_cycle (Response 200 rs) w) (next_addr w + i) = msg_data (snd x)"
proof -
  let ?as = "fst (alloc_all rs w)"
  let ?w0 = "snd (alloc_all rs w)"
  let ?W = "snd (process_anomalies ?as ?w0)"
  have as: "?as = map (\<lambda>i. next_addr w + i) [0..<length rs]"
    by (rule alloc_all_addrs)
  have d: "distinct ?as"
    unfolding as by (simp add: distinct_map inj_on_def)
  from process_anomalies_announces [OF d, of ?w0] obtain news
    where s: "sent ?W = sent ?w0 @ news"
      and n: "\<forall>x \<in> set news. \<exists>a \<in> set ?as. \<exists>k.
              snd x = \<lparr>msg_type = ''new_anomaly'',
                msg_data = setitem ''timestamp'' (PStr (isoformat (clock ?w0 k))) (heap ?w0 a)\<rparr> \<and>
              heap ?W a = msg_data (snd x)"
    by (elim exE conjE)
  have env: "clock ?w0 = clock w" "sent ?w0 = sent w"
    using alloc_all_env [of rs w] by simp_all
  have dr: "drop (length (sent w)) (sent (poll_cycle (Response 200 rs) w)) = news"
    unfolding poll_cycle_fields s env by simp
  show ?thesis
    unfolding dr
  proof
    fix x assume "x \<in> set news"
    with n obtain a k where a: "a \<in> set ?as"
      and m: "snd x = \<lparr>msg_type = ''new_anomaly'',
                msg_data = setitem ''timestamp'' (PStr (isoformat (clock ?w0 k))) (heap ?w0 a)\<rparr>"
      and h: "heap ?W a = msg_data (snd x)"
      by blast
    from a have "a \<in> (\<lambda>i. next_addr w + i) ` set [0..<length rs]"
      unfolding as by (simp only: set_map)
    then obtain i where "i \<in> set [0..<length rs]" and ia: "a = next_addr w + i"
      by (rule imageE)
    then have i: "i < length rs" "a = next_addr w + i"
      by simp_all
    have "heap ?w0 a = rs ! i"
      unfolding i(2) using i(1) by (rule alloc_all_heap)
    then have "snd x = \<lparr>msg_type = ''new_anomaly'',
                msg_data = setitem ''timestamp'' (PStr (isoformat (clock w k))) (rs ! i)\<rparr>"
      using m by (simp add: env)
    moreover have "heap (poll_cycle (Response 200 rs) w) (next_addr w + i) = msg_data (snd x)"
      unfolding poll_cycle_fields using h i(2) by simp
    ultimately show "\<exists>i < length rs. \<exists>k.
       snd x = \<lparr>msg_type = ''new_anomaly'',
                msg_data = setitem ''timestamp'' (PStr (isoformat (clock w k))) (rs ! i)\<rparr> \<and>
       heap (poll_cycle (Response 200 rs) w) (next_addr w + i) = msg_data (snd x)"
      using i(1) by blast
  qed
qed


lemma set_history_add_anomaly:
  "set (anomaly_history (snd (add_anomaly a w))) \<subseteq> insert a (set (anomaly_history w))"
  unfolding add_anomaly_history by (rule set_deque_append)

lemma process_anomalies_stamps:
  assumes "distinct as"
  shows "\<forall>b \<in> set (anomaly_history (snd (process_anomalies as w))).
           b \<in> set (anomaly_history w) \<or>
           (b \<in> set as \<and>
            (\<exists>k. heap (snd (process_anomalies as w)) b =
                   setitem ''timestamp'' (PStr (isoformat (clock w k))) (heap w b)))"
  using assms
proof (induction as arbitrary: w)
  case Nil
  show ?case by simp
next
  case (Cons a rest)
  let ?W = "snd (process_anomalies (a # rest) w)"
  let ?w1 = "snd (add_anomaly a w)"
  let ?w2 = "snd (broadcast ''new_anomaly'' a ?w1)"
  let ?S = "\<lambda>v k b. setitem ''timestamp'' (PStr (isoformat (clock v k))) (heap v b)"
  have d: "distinct rest" "a \<notin> set rest"
    using Cons.prems by simp_all
  have ih: "\<forall>b \<in> set (anomaly_history (snd (process_anomalies rest v))).
           b \<in> set (anomaly_history v) \<or>
           (b \<in> set rest \<and> (\<exists>k. heap (snd (process_anomalies rest v)) b = ?S v k b))" for v
    using d(1) by (rule Cons.IH)
  have h1: "heap ?w1 a = ?S w 0 a"
    by (simp add: add_anomaly_heap)
  have sub: "set (anomaly_history ?w1) \<subseteq> insert a (set (anomaly_history w))"
    by (rule set_history_add_anomaly)
  consider (dup) "in_history a w"
    | (err) "\<not> in_history a w" "fst (add_anomaly a w) \<noteq> None"
    | (stop) "\<not> in_history a w" "fst (add_anomaly a w) = None"
        "fst (broadcast ''new_anomaly'' a ?w1) \<noteq> None"
    | (go) "\<not> in_history a w" "fst (add_anomaly a w) = None"
        "fst (broadcast ''new_anomaly'' a ?w1) = None"
    by blast
  then show ?case
  proof cases
    case dup
    then have p: "process_anomalies (a # rest) w = process_anomalies rest w"
      unfolding process_step by simp
    show ?thesis
      unfolding p using ih [of w] by auto
  next
    case err
    then have p: "process_anomalies (a # rest) w = add_anomaly a w"
      unfolding process_step by simp
    show ?thesis
      unfolding p
    proof
      fix b assume "b \<in> set (anomaly_history ?w1)"
      with sub have "b = a \<or> b \<in> set (anomaly_history w)"
        by auto
      then show "b \<in> set (anomaly_history w) \<or>
           (b \<in> set (a # rest) \<and> (\<exists>k. heap ?w1 b = ?S w k b))"
        using h1 by auto
    qed
  next
    case stop
    then have p: "process_anomalies (a # rest) w = broadcast ''new_anomaly'' a ?w1"
      unfolding process_step by simp
    show ?thesis
      unfolding p
    proof
      fix b assume "b \<in> set (anomaly_history ?w2)"
      then have "b \<in> set (anomaly_history ?w1)"
        by (simp add: broadcast_frame)
      with sub have "b = a \<or> b \<in> set (anomaly_history w)"
        by auto
      moreover have "heap ?w2 a = ?S w 0 a"
        by (simp add: broadcast_frame h1)
      ultimately show "b \<in> set (anomaly_history w) \<or>
           (b \<in> set (a # rest) \<and> (\<exists>k. heap ?w2 b = ?S w k b))"
        by auto
    qed
  next
    case go
    then have p: "process_anomalies (a # rest) w = process_anomalies rest ?w2"
      unfolding process_step by simp
    have c2: "clock ?w2 = (\<lambda>n. clock w (Suc (Suc (Suc n))))"
      using go(2) by (simp add: broadcast_frame add_anomaly_clock)
    have hb: "heap ?w2 b = heap w b" if "b \<in> set rest" for b
      using that d(2) by (auto simp: broadcast_frame add_anomaly_heap)
    have ha: "heap (snd (process_anomalies rest ?w2)) a = ?S w 0 a"
      using process_anomalies_heap_frame [OF d(2), of ?w2] by (simp add: broadcast_frame h1)
    show ?thesis
      unfolding p
    proof
      fix b assume "b \<in> set (anomaly_history (snd (process_anomalies rest ?w2)))"
      with ih [of ?w2] consider (old) "b \<in> set (anomaly_history ?w2)"
        | (new) "b \<in> set rest"
            "\<exists>k. heap (snd (process_anomalies rest ?w2)) b = ?S ?w2 k b"
        by blast
      then show "b \<in> set (anomaly_history w) \<or>
           (b \<in> set (a # rest) \<and>
            (\<exists>k. heap (snd (process_anomalies rest ?w2)) b = ?S w k b))"
      proof cases
        case old
        then have "b \<in> set (anomaly_history ?w1)"
          by (simp add: broadcast_frame)
        with sub have "b = a \<or> b \<in> set (anomaly_history w)"
          by auto
        then show ?thesis
          using ha by auto
      next
        case new
        from new(2) obtain k where "heap (snd (process_anomalies rest ?w2)) b = ?S ?w2 k b" ..
        then have "heap (snd (process_anomalies rest ?w2)) b = ?S w (Suc (Suc (Suc k))) b"
          unfolding c2 by (simp add: hb [OF new(1)])
        then show ?thesis
          using new(1) by auto
      qed
    qed
  qed
qed

lemma poll_cycle_history:
  "anomaly_history (poll_cycle (Response 200 rs) w) =
     anomaly_history (snd (process_anomalies (fst (alloc_all rs w)) (snd (alloc_all rs w))))"
proof -
  obtain as w0 where al: "alloc_all rs w = (as, w0)"
    by (cases "alloc_all rs w")
  obtain e w2 where p: "process_anomalies as w0 = (e, w2)"
    by (cases "process_anomalies as w0")
  show ?thesis
    by (cases e) (simp_all add: poll_cycle_def al p Let_def add_traffic_data_frame)
qed

lemma poll_cycle_stamps:
  assumes "i < length rs"
    and "next_addr w + i \<in> set (anomaly_history (poll_cycle (Response 200 rs) w))"
    and "next_addr w + i \<notin> set (anomaly_history w)"
  shows "\<exists>k. heap (poll_cycle (Response 200 rs) w) (next_addr w + i) =
              setitem ''timestamp'' (PStr (isoformat (clock w k))) (rs ! i)"
proof -
  let ?as = "fst (alloc_all rs w)"
  let ?w0 = "snd (alloc_all rs w)"
  let ?W = "snd (process_anomalies ?as ?w0)"
  let ?b = "next_addr w + i"
  have as: "?as = map (\<lambda>i. next_addr w + i) [0..<length rs]"
    by (rule alloc_all_addrs)
  have d: "distinct ?as"
    unfolding as by (simp add: distinct_map inj_on_def)
  have env: "clock ?w0 = clock w" "anomaly_history ?w0 = anomaly_history w"
    using alloc_all_env [of rs w] alloc_all_frame [of rs w] by simp_all
  have "?b \<in> set (anomaly_history ?W)"
    using assms(2) unfolding poll_cycle_history .
  with process_anomalies_stamps [OF d, of ?w0] assms(3)
  obtain k where "heap ?W ?b = setitem ''timestamp'' (PStr (isoformat (clock ?w0 k))) (heap ?w0 ?b)"
    unfolding env by blast
  moreover have "heap ?w0 ?b = rs ! i"
    using assms(1) by (rule alloc_all_heap)
  ultimately have "heap (poll_cycle (Response 200 rs) w) ?b =
      setitem ''timestamp'' (PStr (isoformat (clock w k))) (rs ! i)"
    unfolding poll_cycle_fields env by simp
  then show ?thesis ..
qed

text \<open>
  C10. \<^verbatim>\<open>add_anomaly\<close> writes the timestamp into the dictionary at the caller's address
  and stores that address: nothing is allocated and no other dictionary changes. So, in a
  turn of the poller on one new record, the candidate's own dictionary carries
  \<^verbatim>\<open>timestamp\<close> afterwards, it is the last entry of the history, and every message
  delivered in that turn is a \<^verbatim>\<open>new_anomaly\<close> message whose data is the record with the
  timestamp of ingestion set. And in a turn of the poller on any number of records, every
  message delivered is a \<^verbatim>\<open>new_anomaly\<close> message for one of the records: its data is
  that record with \<^verbatim>\<open>timestamp\<close> set to a reading of the clock, and it is what the
  candidate's own dictionary holds after the turn; and every candidate that the turn has
  put into the history is the inbound record with \<^verbatim>\<open>timestamp\<close> set to a reading
  of the clock.
\<close>

theorem add_anomaly_stamps_in_place:
  "heap (snd (add_anomaly a w)) =
     (heap w)(a := setitem ''timestamp'' (PStr (isoformat (clock w 0))) (heap w a)) \<and>
   next_addr (snd (add_anomaly a w)) = next_addr w \<and>
   last (anomaly_history (snd (add_anomaly a w))) = a \<and>
   (\<not> in_history (next_addr w) (snd (alloc r w)) \<longrightarrow>
      heap (poll_cycle (Response 200 [r]) w) (next_addr w) =
        setitem ''timestamp'' (PStr (isoformat (clock w 0))) r \<and>
      last (anomaly_history (poll_cycle (Response 200 [r]) w)) = next_addr w) \<and>
   (\<forall>(c, m) \<in> set (drop (length (sent w)) (sent (poll_cycle (Response 200 [r]) w))).
      c \<in> set (active_connections w) \<and>
      m = \<lparr>msg_type = ''new_anomaly'',
           msg_data = setitem ''timestamp'' (PStr (isoformat (clock w 0))) r\<rparr> \<and>
      map_of (msg_data m) ''timestamp'' = Some (PStr (isoformat (clock w 0)))) \<and>
   (\<forall>(c, m) \<in> set (drop (length (sent w)) (sent (poll_cycle (Response 200 rs) w))).
      \<exists>i < length rs. \<exists>k.
        m = \<lparr>msg_type = ''new_anomaly'',
             msg_data = setitem ''timestamp'' (PStr (isoformat (clock w k))) (rs ! i)\<rparr> \<and>
        heap (poll_cycle (Response 200 rs) w) (next_addr w + i) = msg_data m \<and>
        map_of (msg_data m) ''timestamp'' = Some (PStr (isoformat (clock w k)))) \<and>
   (\<forall>i < length rs.
      next_addr w + i \<in> set (anomaly_history (poll_cycle (Response 200 rs) w)) \<and>
      next_addr w + i \<notin> set (anomaly_history w) \<longrightarrow>
      (\<exists>k. heap (poll_cycle (Response 200 rs) w) (next_addr w + i) =
             setitem ''timestamp'' (PStr (isoformat (clock w k))) (rs ! i)))"
proof -
  let ?a = "next_addr w"
  let ?w0 = "snd (alloc r w)"
  let ?r' = "setitem ''timestamp'' (PStr (isoformat (clock w 0))) r"
  have pos: "0 < history_maxlen" by (simp add: history_maxlen_def)
  have w0: "heap ?w0 ?a = r" "clock ?w0 = clock w" "sent ?w0 = sent w"
    "active_connections ?w0 = active_connections w"
    by (simp_all add: heap_alloc alloc_frame)
  have r1: "heap (snd (add_anomaly a w)) =
     (heap w)(a := setitem ''timestamp'' (PStr (isoformat (clock w 0))) (heap w a))"
    by (rule add_anomaly_heap)
  have r2: "next_addr (snd (add_anomaly a w)) = next_addr w"
    by (rule add_anomaly_frame)
  have r3: "last (anomaly_history (snd (add_anomaly a w))) = a"
    using last_deque_append [OF pos] by (simp add: add_anomaly_history)
  have r4: "heap (poll_cycle (Response 200 [r]) w) ?a = ?r' \<and>
      last (anomaly_history (poll_cycle (Response 200 [r]) w)) = ?a"
    if "\<not> in_history ?a ?w0"
    using process_single_stored [OF that] by (simp add: poll_cycle_single_fields w0)
  obtain ds where ds: "sent (poll_cycle (Response 200 [r]) w) =
      sent w @ map (\<lambda>c. (c, \<lparr>msg_type = ''new_anomaly'', msg_data = ?r'\<rparr>)) ds"
    and sub: "set ds \<subseteq> set (active_connections w)"
    using process_single_sent [of ?a ?w0] unfolding poll_cycle_single_fields w0
    by (elim exE conjE)
  have r5: "\<forall>(c, m) \<in> set (drop (length (sent w)) (sent (poll_cycle (Response 200 [r]) w))).
      c \<in> set (active_connections w) \<and>
      m = \<lparr>msg_type = ''new_anomaly'', msg_data = ?r'\<rparr> \<and>
      map_of (msg_data m) ''timestamp'' = Some (PStr (isoformat (clock w 0)))"
    unfolding ds using sub by (auto simp: map_of_setitem)
  have r6: "\<forall>(c, m) \<in> set (drop (length (sent w)) (sent (poll_cycle (Response 200 rs) w))).
      \<exists>i < length rs. \<exists>k.
        m = \<lparr>msg_type = ''new_anomaly'',
             msg_data = setitem ''timestamp'' (PStr (isoformat (clock w k))) (rs ! i)\<rparr> \<and>
        heap (poll_cycle (Response 200 rs) w) (next_addr w + i) = msg_data m \<and>
        map_of (msg_data m) ''timestamp'' = Some (PStr (isoformat (clock w k)))"
  proof (intro ballI, simp only: case_prod_beta)
    fix x assume "x \<in> set (drop (length (sent w)) (sent (poll_cycle (Response 200 rs) w)))"
    with poll_cycle_announces [of w rs] obtain i k where i: "i < length rs"
      and m: "snd x = \<lparr>msg_type = ''new_anomaly'',
                msg_data = setitem ''timestamp'' (PStr (isoformat (clock w k))) (rs ! i)\<rparr>"
      and h: "heap (poll_cycle (Response 200 rs) w) (next_addr w + i) = msg_data (snd x)"
      by blast
    have "map_of (msg_data (snd x)) ''timestamp'' = Some (PStr (isoformat (clock w k)))"
      unfolding m by (simp add: map_of_setitem)
    with i m h show "\<exists>i < length rs. \<exists>k.
        snd x = \<lparr>msg_type = ''new_anomaly'',
             msg_data = setitem ''timestamp'' (PStr (isoformat (clock w k))) (rs ! i)\<rparr> \<and>
        heap (poll_cycle (Response 200 rs) w) (next_addr w + i) = msg_data (snd x) \<and>
        map_of (msg_data (snd x)) ''timestamp'' = Some (PStr (isoformat (clock w k)))"
      by blast
  qed
  from r4 have r4': "\<not> in_history ?a ?w0 \<longrightarrow>
      heap (poll_cycle (Response 200 [r]) w) ?a = ?r' \<and>
      last (anomaly_history (poll_cycle (Response 200 [r]) w)) = ?a"
    by (rule impI)
  have r7: "\<forall>i < length rs.
      next_addr w + i \<in> set (anomaly_history (poll_cycle (Response 200 rs) w)) \<and>
      next_addr w + i \<notin> set (anomaly_history w) \<longrightarrow>
      (\<exists>k. heap (poll_cycle (Response 200 rs) w) (next_addr w + i) =
             setitem ''timestamp'' (PStr (isoformat (clock w k))) (rs ! i))"
  proof (intro allI impI)
    fix i assume "i < length rs"
      and "next_addr w + i \<in> set (anomaly_history (poll_cycle (Response 200 rs) w)) \<and>
           next_addr w + i \<notin> set (anomaly_history w)"
    then show "\<exists>k. heap (poll_cycle (Response 200 rs) w) (next_addr w + i) =
             setitem ''timestamp'' (PStr (isoformat (clock w k))) (rs ! i)"
      by (intro poll_cycle_stamps) simp_all
  qed
  show ?thesis
    by (intro conjI) (fact r1, fact r2, fact r3, fact r4', fact r5, fact r6, fact r7)
qed

theorem add_anomaly_stamps_in_place_witness:
  "map_of example_record ''timestamp'' = None \<and>
   map_of record_without_numbers ''timestamp'' = None \<and>
   \<not> in_history (next_addr three_observers) (snd (alloc example_record three_observers)) \<and>
   heap (poll_cycle (Response 200 [example_record]) three_observers) 0 =
     example_record @ [(''timestamp'', PStr (isoformat (example_clock 0)))] \<and>
   last (anomaly_history (poll_cycle (Response 200 [example_record]) three_observers)) = 0 \<and>
   sent (poll_cycle (Response 200 [example_record]) three_observers) =
     [(1, \<lparr>msg_type = ''new_anomaly'',
           msg_data = example_record @ [(''timestamp'', PStr (isoformat (example_clock 0)))]\<rparr>),
      (3, \<lparr>msg_type = ''new_anomaly'',
           msg_data = example_record @ [(''timestamp'', PStr (isoformat (example_clock 0)))]\<rparr>)] \<and>
   sent (poll_cycle (Response 200 [example_record, record_without_numbers]) three_observers) =
     [(1, \<lparr>msg_type = ''new_anomaly'',
           msg_data = example_record @ [(''timestamp'', PStr (isoformat (example_clock 0)))]\<rparr>),
      (3, \<lparr>msg_type = ''new_anomaly'',
           msg_data = example_record @ [(''timestamp'', PStr (isoformat (example_clock 0)))]\<rparr>),
      (1, \<lparr>msg_type = ''new_anomaly'',
           msg_data = record_without_numbers @
             [(''timestamp'', PStr (isoformat (example_clock 3)))]\<rparr>),
      (3, \<lparr>msg_type = ''new_anomaly'',
           msg_data = record_without_numbers @
             [(''timestamp'', PStr (isoformat (example_clock 3)))]\<rparr>)] \<and>
   anomaly_history three_observers = [] \<and>
   anomaly_history
     (poll_cycle (Response 200 [example_record, record_without_numbers]) three_observers) =
     [0, 1] \<and>
   heap (poll_cycle (Response 200 [example_record, record_without_numbers]) three_observers) 1 =
     record_without_numbers @ [(''timestamp'', PStr (isoformat (example_clock 3)))]"
proof -
  have w: "next_addr three_observers = 0" "clock three_observers = example_clock"
    "anomaly_history three_observers = []"
    by (simp_all add: three_observers_def connect_def initial_world_fields)
  have m: "map_of example_record ''timestamp'' = None"
    "map_of record_without_numbers ''timestamp'' = None"
    by (simp_all add: example_record_def record_without_numbers_def)
  have n: "\<not> in_history (next_addr three_observers) (snd (alloc example_record three_observers))"
    by (simp add: in_history_def alloc_frame w)
  have s: "setitem ''timestamp'' v example_record = example_record @ [(''timestamp'', v)]" for v
    by (simp add: example_record_def)
  have sent1: "sent (poll_cycle (Response 200 [example_record]) three_observers) =
     [(1, \<lparr>msg_type = ''new_anomaly'',
           msg_data = example_record @ [(''timestamp'', PStr (isoformat (example_clock 0)))]\<rparr>),
      (3, \<lparr>msg_type = ''new_anomaly'',
           msg_data = example_record @ [(''timestamp'', PStr (isoformat (example_clock 0)))]\<rparr>)]"
    by (simp add: poll_cycle_def alloc_def in_history_def dict_eq_def add_anomaly_def now_def
      broadcast_def send_text_def await_point_def list_remove_def add_traffic_data_def
      deque_append_def history_maxlen_def three_observers_def connect_def
      second_send_fails_def initial_world_def Let_def dd_update_def dict_get_def
      example_record_def)
  have two: "sent (poll_cycle (Response 200 [example_record, record_without_numbers])
        three_observers) =
     [(1, \<lparr>msg_type = ''new_anomaly'',
           msg_data = example_record @ [(''timestamp'', PStr (isoformat (example_clock 0)))]\<rparr>),
      (3, \<lparr>msg_type = ''new_anomaly'',
           msg_data = example_record @ [(''timestamp'', PStr (isoformat (example_clock 0)))]\<rparr>),
      (1, \<lparr>msg_type = ''new_anomaly'',
           msg_data = record_without_numbers @
             [(''timestamp'', PStr (isoformat (example_clock 3)))]\<rparr>),
      (3, \<lparr>msg_type = ''new_anomaly'',
           msg_data = record_without_numbers @
             [(''timestamp'', PStr (isoformat (example_clock 3)))]\<rparr>)]"
    "heap (poll_cycle (Response 200 [example_record, record_without_numbers]) three_observers)
       (Suc 0) =
     record_without_numbers @ [(''timestamp'', PStr (isoformat (example_clock 3)))]"
    "anomaly_history
       (poll_cycle (Response 200 [example_record, record_without_numbers]) three_observers) =
     [0, Suc 0]"
    by (simp_all add: poll_cycle_def alloc_def in_history_def dict_eq_def add_anomaly_def
      now_def broadcast_def send_text_def await_point_def list_remove_def
      add_traffic_data_def deque_append_def history_maxlen_def three_observers_def
      connect_def second_send_fails_def initial_world_def Let_def dd_update_def dict_get_def
      example_record_def record_without_numbers_def eval_nat_numeral)
  have heap1: "heap (poll_cycle (Response 200 [example_record, record_without_numbers])
        three_observers) 1 =
     record_without_numbers @ [(''timestamp'', PStr (isoformat (example_clock 3)))]"
    using two(2) by simp
  have hist: "anomaly_history
     (poll_cycle (Response 200 [example_record, record_without_numbers]) three_observers) =
     [0, 1]"
    using two(3) by simp
  note t = add_anomaly_stamps_in_place [of 0 three_observers example_record]
  have hl: "heap (poll_cycle (Response 200 [example_record]) three_observers) 0 =
      example_record @ [(''timestamp'', PStr (isoformat (example_clock 0)))] \<and>
    last (anomaly_history (poll_cycle (Response 200 [example_record]) three_observers)) = 0"
    using t [THEN conjunct2, THEN conjunct2, THEN conjunct2, THEN conjunct1] n
    by (simp add: w s)
  show ?thesis
    by (intro conjI) (fact m(1), fact m(2), fact n, fact hl [THEN conjunct1],
      fact hl [THEN conjunct2], fact sent1, fact two(1), fact w(3), fact hist, fact heap1)
qed

subsection \<open>The test for duplicates\<close>

lemma dict_eq_differs:
  "map_of a k \<noteq> map_of b k \<Longrightarrow> \<not> dict_eq a b"
proof -
  assume ne: "map_of a k \<noteq> map_of b k"
  then have "k \<in> set (map fst a @ map fst b)"
    by (cases "map_of a k"; cases "map_of b k")
      (auto simp: map_of_eq_None_iff dest: map_of_SomeD intro: rev_image_eqI)
  then show ?thesis
    using ne by (auto simp: dict_eq_def list_all_iff)
qed

lemma unstamped_not_in_history:
  assumes "map_of (heap w a) ''timestamp'' = None"
    and "\<forall>b \<in> set (anomaly_history w). map_of (heap w b) ''timestamp'' \<noteq> None"
  shows "\<not> in_history a w"
proof -
  have "\<not> dict_eq (heap w a) (heap w b)" if "b \<in> set (anomaly_history w)" for b
  proof (rule dict_eq_differs)
    show "map_of (heap w a) ''timestamp'' \<noteq> map_of (heap w b) ''timestamp''"
      using assms that by auto
  qed
  then show ?thesis
    by (auto simp: in_history_def list_ex_iff)
qed

text \<open>
  C1 fails on the code. The same record sent twice in one response is stored twice, and
  so is the same record sent in two successive responses: the stored copy carries the
  timestamp of line 58 and the candidate does not, so the comparison of line 176 never
  finds it.
\<close>

theorem identical_record_stored_twice:
  "anomaly_history (poll_cycle (Response 200 [example_record, example_record]) example_world)
     = [0, 1] \<and>
   anomaly_history (poll_cycle (Response 200 [example_record])
     (poll_cycle (Response 200 [example_record]) example_world)) = [0, 1]"
  by (simp add: poll_cycle_def alloc_def in_history_def dict_eq_def add_anomaly_def now_def
      broadcast_def add_traffic_data_def deque_append_def history_maxlen_def example_world_def
      initial_world_def Let_def dd_update_def dict_get_def example_record_def)

subsection \<open>Timestamps\<close>


lemma digit_val_digit_char: "n < 10 \<Longrightarrow> digit_val (digit_char n) = Some n"
  by (simp add: digit_val_def digit_char_def)

lemma parse_digits_append:
  "parse_digits a (xs @ ys) =
     (case parse_digits a xs of None \<Rightarrow> None | Some b \<Rightarrow> parse_digits b ys)"
  by (induction xs arbitrary: a) (auto split: option.splits)

lemma parse_zero_pad: "parse_digits a (zero_pad w n) = Some (a * 10 ^ w + n mod 10 ^ w)"
proof (induction w arbitrary: n)
  case 0
  show ?case by simp
next
  case (Suc w)
  have "n mod (10 * 10 ^ w) = 10 * (n div 10 mod 10 ^ w) + n mod 10"
    by (rule mod_mult2_eq)
  then show ?case
    by (simp add: parse_digits_append Suc digit_val_digit_char algebra_simps)
qed

lemma parse_pad: "n < 10 ^ w \<Longrightarrow> parse_digits 0 (zero_pad w n) = Some n"
  by (simp add: parse_zero_pad)

lemma length_zero_pad: "length (zero_pad w n) = w"
  by (induction w arbitrary: n) auto


lemma fromisoformat_isoformat:
  assumes "valid_datetime t"
  shows "fromisoformat (isoformat t) = Some t"
proof -
  have y: "parse_digits 0 (zero_pad 4 (year t)) = Some (year t)"
    using assms by (intro parse_pad) (simp add: valid_datetime_def)
  have m: "parse_digits 0 (zero_pad 2 (month t)) = Some (month t)"
    using assms by (intro parse_pad) (simp add: valid_datetime_def)
  have d: "parse_digits 0 (zero_pad 2 (day t)) = Some (day t)"
    using assms by (intro parse_pad) (simp add: valid_datetime_def days_in_month_def split: if_splits)
  have hh: "parse_digits 0 (zero_pad 2 (hour t)) = Some (hour t)"
    using assms by (intro parse_pad) (simp add: valid_datetime_def)
  have mm: "parse_digits 0 (zero_pad 2 (minute t)) = Some (minute t)"
    using assms by (intro parse_pad) (simp add: valid_datetime_def)
  have ss: "parse_digits 0 (zero_pad 2 (second t)) = Some (second t)"
    using assms by (intro parse_pad) (simp add: valid_datetime_def)
  have us: "parse_digits 0 (zero_pad 6 (microsecond t)) = Some (microsecond t)"
    using assms by (intro parse_pad) (simp add: valid_datetime_def)
  have t: "\<lparr>year = year t, month = month t, day = day t, hour = hour t,
             minute = minute t, second = second t, microsecond = microsecond t\<rparr> = t"
    by simp
  show ?thesis
  proof (cases "microsecond t = 0")
    case True
    with t have t0: "\<lparr>year = year t, month = month t, day = day t, hour = hour t,
             minute = minute t, second = second t, microsecond = 0\<rparr> = t"
      by simp
    from True assms show ?thesis
      by (simp add: fromisoformat_def isoformat_def length_zero_pad nth_append y m d hh mm ss t0)
  next
    case False
    then show ?thesis
      using assms
      by (simp add: fromisoformat_def isoformat_def length_zero_pad nth_append y m d hh mm ss us t)
  qed
qed

lemma lex_less_asym: "lex_less xs ys \<Longrightarrow> \<not> lex_less ys xs"
  by (induction xs ys rule: lex_less.induct) auto

lemma dt_less_asym: "dt_less a b \<Longrightarrow> \<not> dt_less b a"
  by (simp add: dt_less_def lex_less_asym)

lemma back_day_less: "back_day t = Some u \<Longrightarrow> dt_less u t"
  by (auto simp: back_day_def dt_less_def dt_fields_def split: if_splits)

lemma back_hour_less: "back_hour t = Some u \<Longrightarrow> dt_less u t"
proof (cases "0 < hour t")
  case True
  assume "back_hour t = Some u"
  with True show ?thesis
    by (auto simp: back_hour_def dt_less_def dt_fields_def)
next
  case False
  assume "back_hour t = Some u"
  with False have "back_day (t\<lparr>hour := 23\<rparr>) = Some u"
    by (simp add: back_hour_def)
  then show ?thesis
    using False by (auto simp: back_day_def dt_less_def dt_fields_def split: if_splits)
qed

lemma back_minute_less: "back_minute t = Some u \<Longrightarrow> dt_less u t"
proof (cases "0 < minute t")
  case True
  assume "back_minute t = Some u"
  with True show ?thesis
    by (auto simp: back_minute_def dt_less_def dt_fields_def)
next
  case False
  assume "back_minute t = Some u"
  with False have "back_hour (t\<lparr>minute := 59\<rparr>) = Some u"
    by (simp add: back_minute_def)
  then show ?thesis
    using False
    by (auto simp: back_hour_def back_day_def dt_less_def dt_fields_def split: if_splits)
qed

lemma back_hour_minute:
  "back_hour (t\<lparr>minute := m\<rparr>) = map_option (\<lambda>u. u\<lparr>minute := m\<rparr>) (back_hour t)"
  by (simp add: back_hour_def back_day_def)

lemma minute_back_hour: "back_hour t = Some u \<Longrightarrow> minute u = minute t"
  by (auto simp: back_hour_def back_day_def split: if_splits)

lemma minutes_before_within:
  "k \<le> minute t \<Longrightarrow> minutes_before k t = Some (t\<lparr>minute := minute t - k\<rparr>)"
proof (induction k)
  case 0
  show ?case by simp
next
  case (Suc k)
  then show ?case
    by (simp add: back_minute_def)
qed

lemma minutes_before_add:
  "minutes_before (j + k) t =
     (case minutes_before k t of None \<Rightarrow> None | Some u \<Rightarrow> minutes_before j u)"
proof (induction j)
  case 0
  show ?case by (simp split: option.splits)
next
  case (Suc j)
  then show ?case
    by (simp split: option.splits)
qed

lemma minutes_before_60:
  assumes "minute t < 60"
  shows "minutes_before 60 t = back_hour t"
proof -
  let ?m = "minute t"
  have a: "minutes_before ?m t = Some (t\<lparr>minute := 0\<rparr>)"
    using minutes_before_within [of ?m t] by simp
  have b: "minutes_before (Suc ?m) t = map_option (\<lambda>u. u\<lparr>minute := 59\<rparr>) (back_hour t)"
    by (simp add: a back_minute_def back_hour_minute)
  have s60: "(59 - ?m) + Suc ?m = 60"
    using assms by simp
  have "minutes_before ((59 - ?m) + Suc ?m) t =
          (case minutes_before (Suc ?m) t of None \<Rightarrow> None
           | Some u \<Rightarrow> minutes_before (59 - ?m) u)"
    by (rule minutes_before_add)
  then have e: "minutes_before 60 t =
          (case map_option (\<lambda>u. u\<lparr>minute := 59\<rparr>) (back_hour t) of None \<Rightarrow> None
           | Some u \<Rightarrow> minutes_before (59 - ?m) u)"
    unfolding s60 b .
  show ?thesis
  proof (cases "back_hour t")
    case None
    then show ?thesis
      unfolding e by simp
  next
    case (Some u)
    have c: "minutes_before (59 - ?m) (u\<lparr>minute := 59\<rparr>) =
             Some (u\<lparr>minute := 59, minute := 59 - (59 - ?m)\<rparr>)"
      using minutes_before_within [of "59 - ?m" "u\<lparr>minute := 59\<rparr>"] by simp
    have d: "u\<lparr>minute := 59, minute := 59 - (59 - ?m)\<rparr> = u"
      using assms minute_back_hour [OF Some] by simp
    show ?thesis
      unfolding e Some by (simp only: option.map option.case c d)
  qed
qed

lemma minutes_61_not_after:
  assumes "minute now_t < 60" "back_hour now_t = Some last_hour"
    "minutes_before 61 now_t = Some t"
  shows "\<not> dt_less last_hour t"
proof -
  have "minutes_before 61 now_t =
        (case minutes_before 60 now_t of None \<Rightarrow> None | Some u \<Rightarrow> back_minute u)"
    using minutes_before.simps(2) [of 60 now_t] by simp
  then have "back_minute last_hour = Some t"
    using assms by (simp add: minutes_before_60)
  then show ?thesis
    using back_minute_less dt_less_asym by blast
qed

lemma minutes_59_after:
  assumes "minute now_t < 60" "back_hour now_t = Some last_hour"
    "minutes_before 59 now_t = Some t"
  shows "dt_less last_hour t"
proof -
  have "minutes_before 60 now_t =
        (case minutes_before 59 now_t of None \<Rightarrow> None | Some u \<Rightarrow> back_minute u)"
    using minutes_before.simps(2) [of 59 now_t] by simp
  then have "back_minute t = Some last_hour"
    using assms by (simp add: minutes_before_60)
  then show ?thesis
    by (rule back_minute_less)
qed


subsection \<open>The anomalies of the last hour\<close>

lemma stamped_after_stamped:
  "valid_datetime t \<Longrightarrow> map_of d ''timestamp'' = Some (PStr (isoformat t)) \<Longrightarrow>
   stamped_after last_hour d = Inr (dt_less last_hour t)"
  by (simp add: stamped_after_def fromisoformat_isoformat)

lemma recent_filter_stamped:
  "\<forall>a \<in> set as. valid_datetime (stamp a) \<and>
      map_of (h a) ''timestamp'' = Some (PStr (isoformat (stamp a))) \<Longrightarrow>
   recent_filter last_hour h as = Inr (filter (\<lambda>a. dt_less last_hour (stamp a)) as)"
proof (induction as)
  case Nil
  show ?case by simp
next
  case (Cons a as)
  have s: "stamped_after last_hour (h a) = Inr (dt_less last_hour (stamp a))"
    using Cons.prems by (intro stamped_after_stamped) simp_all
  have r: "recent_filter last_hour h as = Inr (filter (\<lambda>a. dt_less last_hour (stamp a)) as)"
    using Cons.prems by (intro Cons.IH) simp
  show ?case
    by (simp add: s r)
qed

lemma get_dashboard_stats_recent:
  assumes "back_day (clock w 0) = Some last_24h" "back_hour (clock w 0) = Some last_hour"
    and "recent_filter last_hour (heap w) (anomaly_history w) = Inr recent"
  shows "\<exists>snap. fst (get_dashboard_stats w) = Inr snap \<and>
           recent_anomalies_count snap = length recent \<and>
           top_attacking_ips snap =
             take 10 (sorted_reverse snd (map (\<lambda>(ip, data). (ip, count data)) (ip_stats w)))"
  using assms by (simp add: get_dashboard_stats_def now_def Let_def)

text \<open>
  C6. When every stored anomaly carries the timestamp written at its ingestion, the
  snapshot taken at the clock reading \<open>now\<close> counts exactly the stored anomalies whose
  timestamp is strictly after \<open>now - 1 hour\<close>. A timestamp 61 minutes before \<open>now\<close> is
  not after that bound, a timestamp 59 minutes before \<open>now\<close> is, and the bound itself is
  not.
\<close>

theorem recent_anomalies_count_last_hour:
  assumes "\<forall>a \<in> set (anomaly_history w). valid_datetime (stamp a) \<and>
             map_of (heap w a) ''timestamp'' = Some (PStr (isoformat (stamp a)))"
    and "valid_datetime (clock w 0)"
    and "back_day (clock w 0) = Some last_24h"
    and "back_hour (clock w 0) = Some last_hour"
  shows "(\<exists>snap. fst (get_dashboard_stats w) = Inr snap \<and>
            recent_anomalies_count snap =
              length (filter (\<lambda>a. dt_less last_hour (stamp a)) (anomaly_history w))) \<and>
         (\<forall>t. minutes_before 61 (clock w 0) = Some t \<longrightarrow> \<not> dt_less last_hour t) \<and>
         (\<forall>t. minutes_before 59 (clock w 0) = Some t \<longrightarrow> dt_less last_hour t) \<and>
         \<not> dt_less last_hour last_hour"
proof -
  have m: "minute (clock w 0) < 60"
    using assms(2) by (simp add: valid_datetime_def)
  have r: "recent_filter last_hour (heap w) (anomaly_history w) =
             Inr (filter (\<lambda>a. dt_less last_hour (stamp a)) (anomaly_history w))"
    using assms(1) by (rule recent_filter_stamped)
  have a: "\<exists>snap. fst (get_dashboard_stats w) = Inr snap \<and>
            recent_anomalies_count snap =
              length (filter (\<lambda>a. dt_less last_hour (stamp a)) (anomaly_history w))"
    using get_dashboard_stats_recent [OF assms(3) assms(4) r] by blast
  have b: "\<forall>t. minutes_before 61 (clock w 0) = Some t \<longrightarrow> \<not> dt_less last_hour t"
    using minutes_61_not_after [OF m assms(4)] by blast
  have c: "\<forall>t. minutes_before 59 (clock w 0) = Some t \<longrightarrow> dt_less last_hour t"
    using minutes_59_after [OF m assms(4)] by blast
  have d: "\<not> dt_less last_hour last_hour"
    using dt_less_asym by blast
  show ?thesis
    by (intro conjI) (fact a, fact b, fact c, fact d)
qed

lemma example_minutes:
  "minutes_before 61 example_time = Some t_61_before"
  "minutes_before 59 example_time = Some t_59_before"
  by code_simp+


lemma example_valid:
  "valid_datetime example_time" "valid_datetime t_61_before" "valid_datetime t_59_before"
  "valid_datetime (example_clock n)"
  by (simp_all add: valid_datetime_def example_time_def t_61_before_def t_59_before_def
      example_clock_def days_in_month_def is_leap_def)

lemma example_back:
  "back_hour example_time =
     Some \<lparr>year = 2024, month = 2, day = 29, hour = 23, minute = 30, second = 0, microsecond = 0\<rparr>"
  "back_day example_time =
     Some \<lparr>year = 2024, month = 2, day = 29, hour = 0, minute = 30, second = 0, microsecond = 0\<rparr>"
  by (simp_all add: back_hour_def back_day_def example_time_def days_in_month_def is_leap_def)

lemma recency_world_fields:
  "anomaly_history recency_world = [0, 1]"
  "map_of (heap recency_world 0) ''timestamp'' = Some (PStr (isoformat t_61_before))"
  "map_of (heap recency_world (Suc 0)) ''timestamp'' = Some (PStr (isoformat t_59_before))"
  "clock recency_world 0 = example_time"
  by (simp_all add: recency_world_def poll_cycle_def alloc_def in_history_def dict_eq_def
      add_anomaly_def now_def broadcast_def add_traffic_data_def deque_append_def
      history_maxlen_def initial_world_def Let_def dd_update_def dict_get_def
      example_record_def record_without_numbers_def recency_clock_def map_of_setitem)

theorem recent_anomalies_count_last_hour_witness:
  "valid_datetime (clock recency_world 0) \<and>
   clock recency_world 0 = example_time \<and>
   back_hour (clock recency_world 0) =
     Some \<lparr>year = 2024, month = 2, day = 29, hour = 23, minute = 30, second = 0, microsecond = 0\<rparr> \<and>
   back_day (clock recency_world 0) =
     Some \<lparr>year = 2024, month = 2, day = 29, hour = 0, minute = 30, second = 0, microsecond = 0\<rparr> \<and>
   anomaly_history recency_world = [0, 1] \<and>
   map_of (heap recency_world 0) ''timestamp'' = Some (PStr (isoformat t_61_before)) \<and>
   map_of (heap recency_world 1) ''timestamp'' = Some (PStr (isoformat t_59_before)) \<and>
   minutes_before 61 (clock recency_world 0) = Some t_61_before \<and>
   minutes_before 59 (clock recency_world 0) = Some t_59_before \<and>
   (\<exists>snap. fst (get_dashboard_stats recency_world) = Inr snap \<and>
      recent_anomalies_count snap = 1)"
proof -
  let ?lh = "\<lparr>year = 2024, month = 2, day = 29, hour = 23, minute = 30, second = 0,
              microsecond = 0\<rparr>"
  let ?ld = "\<lparr>year = 2024, month = 2, day = 29, hour = 0, minute = 30, second = 0,
              microsecond = 0\<rparr>"
  let ?stamp = "\<lambda>a::nat. if a = 0 then t_61_before else t_59_before"
  have c: "clock recency_world 0 = example_time"
    by (rule recency_world_fields)
  have h1: "map_of (heap recency_world 1) ''timestamp'' = Some (PStr (isoformat t_59_before))"
    using recency_world_fields(3) by simp
  have st: "\<forall>a \<in> set (anomaly_history recency_world). valid_datetime (?stamp a) \<and>
      map_of (heap recency_world a) ''timestamp'' = Some (PStr (isoformat (?stamp a)))"
    by (simp add: recency_world_fields example_valid)
  have v: "valid_datetime (clock recency_world 0)"
    by (simp add: c example_valid)
  have bd: "back_day (clock recency_world 0) = Some ?ld"
    and bh: "back_hour (clock recency_world 0) = Some ?lh"
    by (simp_all add: c example_back)
  have m: "minutes_before 61 (clock recency_world 0) = Some t_61_before"
    "minutes_before 59 (clock recency_world 0) = Some t_59_before"
    by (simp_all only: c example_minutes)
  have f: "\<not> dt_less ?lh t_61_before" "dt_less ?lh t_59_before"
    by (simp_all add: dt_less_def dt_fields_def t_61_before_def t_59_before_def)
  note t = recent_anomalies_count_last_hour [OF st v bd bh]
  have cnt: "\<exists>snap. fst (get_dashboard_stats recency_world) = Inr snap \<and>
      recent_anomalies_count snap = 1"
    using t [THEN conjunct1] f by (simp add: recency_world_fields)
  show ?thesis
    by (intro conjI) (fact v, fact c, fact bh, fact bd, fact recency_world_fields(1),
      fact recency_world_fields(2), fact h1, fact m(1), fact m(2), fact cnt)
qed

subsection \<open>The ranking of the addresses\<close>












end
